theory Spec2Isabelle
  imports Main "HOL-Library.Char_ord" "HOL-Library.List_Lexorder" "HOL-Library.Sublist"
    "HOL-Library.AList"
begin

section \<open>The password store of pypass (\<^verbatim>\<open>pypass/store.py\<close>)\<close>

text \<open>
  The class \<^verbatim>\<open>Store\<close> keeps one gpg-encrypted file per key under a store directory and
  records every change in a git repository. The methods are embedded as functions on an
  explicit state (the file system, the working directory and the git history); an
  exception is the left summand of the result, and the state reached is returned with it.
\<close>

subsection \<open>Python strings\<close>

text \<open>\<^verbatim>\<open>s.split(sep)\<close> for a one-character separator: never the empty list.\<close>

fun str_split :: "char \<Rightarrow> string \<Rightarrow> string list" where
  "str_split sep [] = [[]]"
| "str_split sep (c # cs) =
     (if c = sep then [] # str_split sep cs
      else (case str_split sep cs of
              [] \<Rightarrow> [[c]]
            | w # ws \<Rightarrow> (c # w) # ws))"

text \<open>\<^verbatim>\<open>sep.join(xs)\<close>.\<close>

fun str_join :: "string \<Rightarrow> string list \<Rightarrow> string" where
  "str_join sep [] = []"
| "str_join sep [x] = x"
| "str_join sep (x # y # zs) = x @ sep @ str_join sep (y # zs)"

definition startswith :: "string \<Rightarrow> string \<Rightarrow> bool" where
  "startswith s t = prefix t s"

definition endswith :: "string \<Rightarrow> string \<Rightarrow> bool" where
  "endswith s t = suffix t s"

text \<open>\<^verbatim>\<open>s.rfind(c)\<close>: the last index of \<open>c\<close>, or \<open>-1\<close>.\<close>

definition str_rfind :: "string \<Rightarrow> char \<Rightarrow> int" where
  "str_rfind s c = int (length s) - 1 - int (length (takeWhile (\<lambda>x. x \<noteq> c) (rev s)))"

definition str_rstrip :: "char \<Rightarrow> string \<Rightarrow> string" where
  "str_rstrip c s = rev (dropWhile (\<lambda>x. x = c) (rev s))"

subsection \<open>\<^verbatim>\<open>os.path\<close> on POSIX\<close>

text \<open>
  \<^verbatim>\<open>os.path.normpath\<close>: the loop over the components keeps \<^verbatim>\<open>new_comps\<close>; a leading
  \<^verbatim>\<open>..\<close> of a relative path stays, one of an absolute path is dropped.
\<close>

fun normpath_comps :: "nat \<Rightarrow> string list \<Rightarrow> string list \<Rightarrow> string list" where
  "normpath_comps initial_slashes new_comps [] = new_comps"
| "normpath_comps initial_slashes new_comps (cmp # comps) =
     (if cmp = [] \<or> cmp = ''.'' then normpath_comps initial_slashes new_comps comps
      else if cmp \<noteq> ''..'' \<or> (initial_slashes = 0 \<and> new_comps = [])
                \<or> (new_comps \<noteq> [] \<and> last new_comps = ''..'')
           then normpath_comps initial_slashes (new_comps @ [cmp]) comps
      else if new_comps \<noteq> [] then normpath_comps initial_slashes (butlast new_comps) comps
      else normpath_comps initial_slashes new_comps comps)"

definition normpath :: "string \<Rightarrow> string" where
  "normpath path =
     (if path = [] then ''.''
      else
        let initial_slashes =
              (if startswith path ''/''
               then (if startswith path ''//'' \<and> \<not> startswith path ''///'' then 2 else 1)
               else (0::nat));
            comps = normpath_comps initial_slashes [] (str_split CHR ''/'' path);
            p = replicate initial_slashes CHR ''/'' @ str_join ''/'' comps
        in if p = [] then ''.'' else p)"

text \<open>\<^verbatim>\<open>os.path.join(a, b)\<close> with two arguments.\<close>

definition os_path_join :: "string \<Rightarrow> string \<Rightarrow> string" where
  "os_path_join a b =
     (if startswith b ''/'' then b
      else if a = [] \<or> endswith a ''/'' then a @ b
      else a @ ''/'' @ b)"

text \<open>\<^verbatim>\<open>os.path.dirname\<close>.\<close>

definition dirname :: "string \<Rightarrow> string" where
  "dirname p =
     (let i = str_rfind p CHR ''/'' + 1;
          head = take (nat i) p
      in if head \<noteq> [] \<and> head \<noteq> replicate (length head) CHR ''/''
         then str_rstrip CHR ''/'' head else head)"

subsection \<open>The file system\<close>

text \<open>
  A file system without symbolic links: an association list from absolute paths (the
  list of their components; the root is \<open>[]\<close> and always a directory) to nodes. The first
  binding of a path counts. A path string is resolved against the working directory,
  and \<^verbatim>\<open>..\<close> is resolved lexically.
\<close>

datatype node = File string | Dir

type_synonym filesystem = "(string list \<times> node) list"

datatype git_entry =
    GitAdd string string
  | GitRemove "string list" string bool bool

record state =
  files :: filesystem
  cwd :: string
  history :: "git_entry list"

text \<open>
  The exceptions. The first five are Python's own; the spec calls \<open>FileExistsError\<close>
  \<^verbatim>\<open>AlreadyExistsError\<close> or \<^verbatim>\<open>PathConflictError\<close>, and \<open>FileNotFoundError\<close>
  \<^verbatim>\<open>NotFoundError\<close> or \<^verbatim>\<open>MissingIdentityError\<close>. The messages are left out.
\<close>

datatype error =
    FileExistsError
  | FileNotFoundError
  | NotADirectoryError
  | IsADirectoryError
  | TypeError
  | InvalidPath
  | NotInitialised
  | EncryptionError
  | DecryptionError

type_synonym 'a result = "(error + 'a) \<times> state"

text \<open>The components of a path, walked with a stack whose head is the last one reached.\<close>

fun walk :: "string list \<Rightarrow> string list \<Rightarrow> string list" where
  "walk stack [] = stack"
| "walk stack (c # cs) =
     (if c = [] \<or> c = ''.'' then walk stack cs
      else if c = ''..'' then walk (tl stack) cs
      else walk (c # stack) cs)"

definition resolve :: "state \<Rightarrow> string \<Rightarrow> string list" where
  "resolve st p = rev (walk [] (str_split CHR ''/'' (os_path_join (cwd st) p)))"

definition node_at :: "filesystem \<Rightarrow> string list \<Rightarrow> node option" where
  "node_at fs r = (if r = [] then Some Dir else map_of fs r)"

definition lookup :: "state \<Rightarrow> string \<Rightarrow> node option" where
  "lookup st p = node_at (files st) (resolve st p)"

definition os_path_isdir :: "state \<Rightarrow> string \<Rightarrow> bool" where
  "os_path_isdir st p = (case lookup st p of Some Dir \<Rightarrow> True | _ \<Rightarrow> False)"

definition os_path_isfile :: "state \<Rightarrow> string \<Rightarrow> bool" where
  "os_path_isfile st p = (case lookup st p of Some (File _) \<Rightarrow> True | _ \<Rightarrow> False)"

definition os_path_exists :: "state \<Rightarrow> string \<Rightarrow> bool" where
  "os_path_exists st p = (case lookup st p of Some _ \<Rightarrow> True | None \<Rightarrow> False)"

text \<open>
  \<^verbatim>\<open>os.makedirs(name, exist_ok=...)\<close>. The directories missing on the way to \<open>name\<close> are
  made from the top; a file on the way is an error, raised before anything is made.
  The path is taken reversed, so that its parent is the tail.
\<close>

fun make_missing :: "filesystem \<Rightarrow> string list \<Rightarrow> error + filesystem" where
  "make_missing fs [] = Inr fs"
| "make_missing fs (c # rparent) =
     (case map_of fs (rev (c # rparent)) of
        Some Dir \<Rightarrow> Inr fs
      | Some (File _) \<Rightarrow> Inl NotADirectoryError
      | None \<Rightarrow>
          (case make_missing fs rparent of
             Inl e \<Rightarrow> Inl e
           | Inr fs' \<Rightarrow> Inr (AList.update (rev (c # rparent)) Dir fs')))"

definition os_makedirs :: "state \<Rightarrow> string \<Rightarrow> bool \<Rightarrow> error + state" where
  "os_makedirs st name exist_ok =
     (case lookup st name of
        Some Dir \<Rightarrow> if exist_ok then Inr st else Inl FileExistsError
      | Some (File _) \<Rightarrow> Inl FileExistsError
      | None \<Rightarrow>
          (case make_missing (files st) (rev (resolve st name)) of
             Inl e \<Rightarrow> Inl e
           | Inr fs' \<Rightarrow> Inr (st\<lparr>files := fs'\<rparr>)))"

text \<open>\<^verbatim>\<open>open(p, 'w')\<close> followed by the writes: the file is made or replaced.\<close>

definition write_file :: "state \<Rightarrow> string \<Rightarrow> string \<Rightarrow> error + state" where
  "write_file st p content =
     (let r = resolve st p in
      case node_at (files st) r of
        Some Dir \<Rightarrow> Inl IsADirectoryError
      | _ \<Rightarrow>
          (case node_at (files st) (butlast r) of
             Some Dir \<Rightarrow> Inr (st\<lparr>files := AList.update r (File content) (files st)\<rparr>)
           | Some (File _) \<Rightarrow> Inl NotADirectoryError
           | None \<Rightarrow> Inl FileNotFoundError))"

definition os_remove :: "state \<Rightarrow> string \<Rightarrow> error + state" where
  "os_remove st p =
     (case lookup st p of
        Some (File _) \<Rightarrow> Inr (st\<lparr>files := AList.delete (resolve st p) (files st)\<rparr>)
      | Some Dir \<Rightarrow> Inl IsADirectoryError
      | None \<Rightarrow> Inl FileNotFoundError)"

text \<open>
  \<^verbatim>\<open>os.rmdir(p)\<close> refuses a path whose last component is \<^verbatim>\<open>.\<close> or \<^verbatim>\<open>..\<close>, and the root.
\<close>

definition rmdir_refuses :: "string \<Rightarrow> bool" where
  "rmdir_refuses p =
     (case rev (filter (\<lambda>c. c \<noteq> []) (str_split CHR ''/'' p)) of
        [] \<Rightarrow> True
      | c # cs \<Rightarrow> c = ''.'' \<or> c = ''..'')"

text \<open>
  \<^verbatim>\<open>shutil.rmtree(p, ignore_errors=True)\<close>: everything below a directory is removed, and
  then the directory itself with \<^verbatim>\<open>os.rmdir(p)\<close>; where \<^verbatim>\<open>rmdir\<close> refuses the path, the
  error is ignored and the emptied directory stays. On anything that is not a directory
  the error is ignored and nothing happens.
\<close>

definition shutil_rmtree :: "state \<Rightarrow> string \<Rightarrow> state" where
  "shutil_rmtree st p =
     (if os_path_isdir st p
      then st\<lparr>files :=
                filter (\<lambda>(q, n). \<not> (if rmdir_refuses p then strict_prefix (resolve st p) q
                                      else prefix (resolve st p) q))
                  (files st)\<rparr>
      else st)"

text \<open>\<^verbatim>\<open>os.listdir\<close>: the names in a directory, in the order the file system has them.\<close>

definition os_listdir :: "state \<Rightarrow> string \<Rightarrow> error + string list" where
  "os_listdir st p =
     (case lookup st p of
        Some Dir \<Rightarrow>
          Inr (remdups (map (\<lambda>(q, n). last q)
                 (filter (\<lambda>(q, n). q \<noteq> [] \<and> butlast q = resolve st p) (files st))))
      | Some (File _) \<Rightarrow> Inl NotADirectoryError
      | None \<Rightarrow> Inl FileNotFoundError)"

text \<open>\<^verbatim>\<open>os.path.abspath\<close> and \<^verbatim>\<open>os.path.relpath(path, start)\<close>.\<close>

definition abspath :: "state \<Rightarrow> string \<Rightarrow> string" where
  "abspath st p = normpath (os_path_join (cwd st) p)"

fun commonprefix :: "string list \<Rightarrow> string list \<Rightarrow> string list" where
  "commonprefix (x # xs) (y # ys) = (if x = y then x # commonprefix xs ys else [])"
| "commonprefix xs ys = []"

definition relpath :: "state \<Rightarrow> string \<Rightarrow> string \<Rightarrow> string" where
  "relpath st path start =
     (let start_list = filter (\<lambda>x. x \<noteq> []) (str_split CHR ''/'' (abspath st start));
          path_list = filter (\<lambda>x. x \<noteq> []) (str_split CHR ''/'' (abspath st path));
          i = length (commonprefix start_list path_list);
          rel_list = replicate (length start_list - i) ''..'' @ drop i path_list
      in if rel_list = [] then ''.'' else str_join ''/'' rel_list)"

subsection \<open>The helpers of \<^verbatim>\<open>pypass.gpg\<close>, \<^verbatim>\<open>pypass.git\<close> and \<^verbatim>\<open>pypass.util\<close>\<close>

text \<open>
  \<^verbatim>\<open>store.py\<close> imports its helpers from three modules of the package that are not among
  the sources. What they run is a parameter of the model: gpg (\<open>encrypt\<close>, \<open>decrypt\<close>),
  the random generator behind \<^verbatim>\<open>_gen_password\<close>, and \<^verbatim>\<open>_copy_move\<close>, which copies or moves
  a file or subtree and returns the destination. \<open>encrypt\<close> is given the file system and
  the resolved path of the file written, from which gpg's wrapper finds the recipients;
  it and \<open>decrypt\<close> may fail.
\<close>

record backend =
  encrypt :: "filesystem \<Rightarrow> string list \<Rightarrow> string \<Rightarrow> string option"
  decrypt :: "string \<Rightarrow> string option"
  gen_password :: "int \<Rightarrow> bool \<Rightarrow> string"
  copy_move :: "state \<Rightarrow> string \<Rightarrow> string \<Rightarrow> bool \<Rightarrow> bool \<Rightarrow> string result"

text \<open>The attributes of a \<^verbatim>\<open>Store\<close> object the methods read: \<open>repo\<close> is false for \<^verbatim>\<open>None\<close>.\<close>

record store =
  store_dir :: string
  repo :: bool

text \<open>
  Modelled from the spec: \<^verbatim>\<open>_git_add_path\<close> of \<^verbatim>\<open>pypass.git\<close>, which is not among the
  sources. The history backend stages a path and commits with a message; with no backend
  the call is a silent no-op.
\<close>

definition git_add_path :: "store \<Rightarrow> state \<Rightarrow> string \<Rightarrow> string \<Rightarrow> state" where
  "git_add_path s st path message =
     (if repo s then st\<lparr>history := history st @ [GitAdd path message]\<rparr> else st)"

text \<open>
  Modelled from the spec: \<^verbatim>\<open>_git_remove_path\<close> of \<^verbatim>\<open>pypass.git\<close>, which is not among the
  sources. The history backend removes paths, recursively or not, and commits unless told
  not to; with no backend the call is a silent no-op.
\<close>

definition git_remove_path ::
  "store \<Rightarrow> state \<Rightarrow> string list \<Rightarrow> string \<Rightarrow> bool \<Rightarrow> bool \<Rightarrow> state" where
  "git_remove_path s st paths message recursive commit =
     (if repo s then st\<lparr>history := history st @ [GitRemove paths message recursive commit]\<rparr>
      else st)"

text \<open>
  Modelled from the spec: \<^verbatim>\<open>_read_key\<close> of \<^verbatim>\<open>pypass.gpg\<close>, which is not among the sources.
  The encrypted file is read and the encryption backend decrypts the blob back to
  plaintext; a failure of the backend propagates.
\<close>

definition read_key :: "backend \<Rightarrow> state \<Rightarrow> string \<Rightarrow> error + string" where
  "read_key be st key_path =
     (case lookup st key_path of
        Some (File blob) \<Rightarrow>
          (case decrypt be blob of
             Some plain \<Rightarrow> Inr plain
           | None \<Rightarrow> Inl DecryptionError)
      | Some Dir \<Rightarrow> Inl IsADirectoryError
      | None \<Rightarrow> Inl FileNotFoundError)"

text \<open>
  Modelled from the spec: \<^verbatim>\<open>_write_key\<close> of \<^verbatim>\<open>pypass.gpg\<close>, which is not among the sources.
  The encryption backend turns the plaintext into a blob addressed to the identities in
  effect for the file, and the blob is written to the file; a failure of the backend
  propagates.
\<close>

definition write_key :: "backend \<Rightarrow> state \<Rightarrow> string \<Rightarrow> string \<Rightarrow> error + state" where
  "write_key be st key_path key_data =
     (case encrypt be (files st) (resolve st key_path) key_data of
        Some blob \<Rightarrow> write_file st key_path blob
      | None \<Rightarrow> Inl EncryptionError)"

text \<open>
  Modelled from the spec: the loop of \<^verbatim>\<open>_reencrypt_path\<close> of \<^verbatim>\<open>pypass.gpg\<close>, which is not
  among the sources. Each secret is decrypted and encrypted again; the first failure
  aborts and leaves the files already processed in their new state.
\<close>

fun reencrypt_keys :: "backend \<Rightarrow> state \<Rightarrow> string list list \<Rightarrow> unit result" where
  "reencrypt_keys be st [] = (Inr (), st)"
| "reencrypt_keys be st (q # qs) =
     (case map_of (files st) q of
        Some (File blob) \<Rightarrow>
          (case decrypt be blob of
             None \<Rightarrow> (Inl DecryptionError, st)
           | Some plain \<Rightarrow>
               (case encrypt be (files st) q plain of
                  None \<Rightarrow> (Inl EncryptionError, st)
                | Some blob' \<Rightarrow>
                    reencrypt_keys be (st\<lparr>files := AList.update q (File blob') (files st)\<rparr>) qs))
      | _ \<Rightarrow> reencrypt_keys be st qs)"

text \<open>
  Modelled from the spec: \<^verbatim>\<open>_reencrypt_path\<close> of \<^verbatim>\<open>pypass.gpg\<close>, which is not among the
  sources. Every secret in the subtree rooted at the path is re-encrypted.
\<close>

definition reencrypt_path :: "backend \<Rightarrow> state \<Rightarrow> string \<Rightarrow> unit result" where
  "reencrypt_path be st path =
     reencrypt_keys be st
       (map fst (filter (\<lambda>(q, n). q \<noteq> [] \<and> prefix (resolve st path) q
                                   \<and> endswith (last q) ''.gpg'' \<and> n \<noteq> Dir) (files st)))"

subsection \<open>The decorators\<close>

definition is_init :: "store \<Rightarrow> state \<Rightarrow> bool" where
  "is_init s st = os_path_isfile st (os_path_join (store_dir s) ''.gpg-id'')"

text \<open>
  Modelled from the spec: the decorator \<^verbatim>\<open>initialised\<close> of \<^verbatim>\<open>pypass.util\<close>, which is not
  among the sources. The store root must have a scope for any secret operation to
  succeed; the method \<^verbatim>\<open>is_init\<close> above is the test, and a store that fails it gives
  \<open>NotInitialised\<close>.
\<close>

definition initialised :: "store \<Rightarrow> state \<Rightarrow> bool" where
  "initialised s st = is_init s st"

text \<open>
  Modelled from the spec: the decorator \<^verbatim>\<open>trap\<close> of \<^verbatim>\<open>pypass.util\<close>, which is not among
  the sources; it is the directory traversal guard. A path passes when, normalised and
  taken below the store root, it does not escape the store root; \<^verbatim>\<open>None\<close> passes. A path
  that does not pass gives \<open>InvalidPath\<close>.
\<close>

definition trap :: "store \<Rightarrow> state \<Rightarrow> string option \<Rightarrow> bool" where
  "trap s st path =
     (case path of
        None \<Rightarrow> True
      | Some p \<Rightarrow>
          prefix (resolve st (store_dir s))
                 (resolve st (os_path_join (store_dir s) (normpath p))))"

subsection \<open>The methods of \<^verbatim>\<open>Store\<close>\<close>

text \<open>\<^verbatim>\<open>_get_store_name\<close>: the path relative to the store, without a trailing \<^verbatim>\<open>.gpg\<close>.\<close>

definition get_store_name :: "store \<Rightarrow> state \<Rightarrow> string \<Rightarrow> string" where
  "get_store_name s st path =
     (let path = relpath st path (store_dir s)
      in if endswith path ''.gpg'' then take (length path - 4) path else path)"

text \<open>
  \<^verbatim>\<open>init_store\<close>, decorated with \<^verbatim>\<open>trap('path')\<close>. \<open>gpg_ids\<close> is \<^verbatim>\<open>None\<close> or a list; the
  method wraps a lone string into a list of one, which is \<open>Some [x]\<close> here. The check of
  \<open>path\<close> comes first; the two branches on \<open>gpg_ids\<close> follow.
\<close>

definition init_store_path :: "store \<Rightarrow> state \<Rightarrow> string option \<Rightarrow> error + string" where
  "init_store_path s st path =
     (case path of
        Some p \<Rightarrow>
          (let p = normpath p
           in if \<not> os_path_isdir st p \<and> os_path_exists st p then Inl FileExistsError
              else Inr p)
      | None \<Rightarrow> Inr (store_dir s))"

definition init_store_delete :: "store \<Rightarrow> state \<Rightarrow> string \<Rightarrow> string \<Rightarrow> unit result" where
  "init_store_delete s st gpg_id_dir gpg_id_path =
     (if \<not> os_path_isfile st gpg_id_path then (Inl FileNotFoundError, st)
      else
        (case os_remove st gpg_id_path of
           Inl e \<Rightarrow> (Inl e, st)
         | Inr st1 \<Rightarrow>
             (let st2 = git_remove_path s st1 [gpg_id_path]
                          (''Deinitialize '' @ gpg_id_path @ ''.'') True True
              in (Inr (), shutil_rmtree st2 gpg_id_dir))))"

definition init_store_set ::
  "store \<Rightarrow> state \<Rightarrow> string list \<Rightarrow> string \<Rightarrow> string \<Rightarrow> unit result" where
  "init_store_set s st gpg_ids gpg_id_dir gpg_id_path =
     (case os_makedirs st gpg_id_dir False of
        Inl e \<Rightarrow> (Inl e, st)
      | Inr st1 \<Rightarrow>
          (case write_file st1 gpg_id_path (str_join ''\<newline>'' gpg_ids @ ''\<newline>'') of
             Inl e \<Rightarrow> (Inl e, st1)
           | Inr st2 \<Rightarrow>
               (Inr (), git_add_path s st2 gpg_id_path
                          (''Set GPG id to '' @ str_join '', '' gpg_ids @ ''.''))))"

definition init_store ::
  "backend \<Rightarrow> store \<Rightarrow> state \<Rightarrow> string list option \<Rightarrow> string option \<Rightarrow> unit result" where
  "init_store be s st gpg_ids path =
     (if \<not> trap s st path then (Inl InvalidPath, st)
      else
        (case init_store_path s st path of
           Inl e \<Rightarrow> (Inl e, st)
         | Inr path \<Rightarrow>
             (let gpg_id_dir = os_path_join (store_dir s) path;
                  gpg_id_path = os_path_join gpg_id_dir ''.gpg-id''
              in case (case gpg_ids of
                         None \<Rightarrow> init_store_delete s st gpg_id_dir gpg_id_path
                       | Some ids \<Rightarrow>
                           if length ids = 0
                           then init_store_delete s st gpg_id_dir gpg_id_path
                           else init_store_set s st ids gpg_id_dir gpg_id_path) of
                   (Inl e, st1) \<Rightarrow> (Inl e, st1)
                 | (Inr u, st1) \<Rightarrow>
                     (case reencrypt_path be st1 gpg_id_dir of
                        (Inl e, st2) \<Rightarrow> (Inl e, st2)
                      | (Inr u, st2) \<Rightarrow>
                          (case gpg_ids of
                             None \<Rightarrow> (Inl TypeError, st2)
                           | Some ids \<Rightarrow>
                               (Inr (), git_add_path s st2 gpg_id_dir
                                  (''Reencrypt password store using new GPG id ''
                                     @ str_join '', '' ids @ ''.'')))))))"

text \<open>\<^verbatim>\<open>get_key\<close>, decorated with \<^verbatim>\<open>initialised\<close> and \<^verbatim>\<open>trap(1)\<close>.\<close>

definition get_key ::
  "backend \<Rightarrow> store \<Rightarrow> state \<Rightarrow> string option \<Rightarrow> string option result" where
  "get_key be s st path =
     (if \<not> initialised s st then (Inl NotInitialised, st)
      else if \<not> trap s st path then (Inl InvalidPath, st)
      else
        (case path of
           None \<Rightarrow> (Inr None, st)
         | Some p \<Rightarrow>
             if p = [] then (Inr None, st)
             else
               (let path = normpath p;
                    key_path = os_path_join (store_dir s) (path @ ''.gpg'')
                in if os_path_isfile st key_path
                   then (case read_key be st key_path of
                           Inl e \<Rightarrow> (Inl e, st)
                         | Inr key_data \<Rightarrow> (Inr (Some key_data), st))
                   else (Inl FileNotFoundError, st))))"

text \<open>\<^verbatim>\<open>set_key\<close>, decorated with \<^verbatim>\<open>initialised\<close> and \<^verbatim>\<open>trap(1)\<close>.\<close>

definition set_key ::
  "backend \<Rightarrow> store \<Rightarrow> state \<Rightarrow> string option \<Rightarrow> string \<Rightarrow> bool \<Rightarrow> unit result" where
  "set_key be s st path key_data force =
     (if \<not> initialised s st then (Inl NotInitialised, st)
      else if \<not> trap s st path then (Inl InvalidPath, st)
      else
        (case path of
           None \<Rightarrow> (Inr (), st)
         | Some p \<Rightarrow>
             if p = [] then (Inr (), st)
             else
               (let path = normpath p;
                    key_path = os_path_join (store_dir s) (path @ ''.gpg'');
                    key_dir = dirname key_path
                in if os_path_exists st key_path \<and> \<not> force then (Inl FileExistsError, st)
                   else
                     (case os_makedirs st (os_path_join (store_dir s) key_dir) True of
                        Inl e \<Rightarrow> (Inl e, st)
                      | Inr st1 \<Rightarrow>
                          (case write_key be st1 key_path key_data of
                             Inl e \<Rightarrow> (Inl e, st1)
                           | Inr st2 \<Rightarrow>
                               (Inr (), git_add_path s st2 key_path
                                  (''Add given password for '' @ path @ '' to store.'')))))))"

text \<open>
  \<^verbatim>\<open>gen_key\<close>, decorated with \<^verbatim>\<open>initialised\<close> and \<^verbatim>\<open>trap(1)\<close>. \<^verbatim>\<open>lines[0] = password\<close>
  is in range: \<^verbatim>\<open>split\<close> never returns the empty list.
\<close>

definition gen_key ::
  "backend \<Rightarrow> store \<Rightarrow> state \<Rightarrow> string option \<Rightarrow> int \<Rightarrow> bool \<Rightarrow> bool \<Rightarrow> bool
     \<Rightarrow> string option result" where
  "gen_key be s st path len symbols force inplace =
     (if \<not> initialised s st then (Inl NotInitialised, st)
      else if \<not> trap s st path then (Inl InvalidPath, st)
      else
        (case path of
           None \<Rightarrow> (Inr None, st)
         | Some p \<Rightarrow>
             if p = [] then (Inr None, st)
             else
               (let path = normpath p;
                    key_path = os_path_join (store_dir s) (path @ ''.gpg'');
                    key_dir = dirname key_path
                in if os_path_exists st key_path \<and> \<not> (force \<or> inplace)
                   then (Inl FileExistsError, st)
                   else
                     (case os_makedirs st (os_path_join (store_dir s) key_dir) True of
                        Inl e \<Rightarrow> (Inl e, st)
                      | Inr st1 \<Rightarrow>
                          (let password = gen_password be len symbols
                           in case (if \<not> inplace then write_key be st1 key_path password
                                    else
                                      (case read_key be st1 key_path of
                                         Inl e \<Rightarrow> Inl e
                                       | Inr key_data \<Rightarrow>
                                           (let lines = str_split CHR ''\<newline>'' key_data;
                                                lines = lines[0 := password]
                                            in write_key be st1 key_path
                                                 (str_join ''\<newline>'' lines)))) of
                                Inl e \<Rightarrow> (Inl e, st1)
                              | Inr st2 \<Rightarrow>
                                  (Inr (Some password),
                                   git_add_path s st2 key_path
                                     ((if inplace then ''Replace'' else ''Add'')
                                        @ '' generated password for '' @ path @ ''.'')))))))"

text \<open>
  \<^verbatim>\<open>_copy_move_path\<close>, decorated with \<^verbatim>\<open>initialised\<close>, \<^verbatim>\<open>trap(1)\<close> and \<^verbatim>\<open>trap(2)\<close>. The two
  full paths it hands to \<^verbatim>\<open>_copy_move\<close> are computed first.
\<close>

definition copy_move_args :: "store \<Rightarrow> state \<Rightarrow> string \<Rightarrow> string \<Rightarrow> string \<times> string" where
  "copy_move_args s st old_path new_path =
     (let old_path = normpath old_path;
          new_path = normpath new_path;
          old_path_full = os_path_join (store_dir s) old_path;
          new_path_full = os_path_join (store_dir s) new_path
      in if \<not> os_path_isdir st old_path_full
         then (old_path_full @ ''.gpg'',
               if \<not> (os_path_isdir st new_path_full \<or> endswith new_path_full ''/'')
               then new_path_full @ ''.gpg'' else new_path_full)
         else (old_path_full, new_path_full))"

definition copy_move_path ::
  "backend \<Rightarrow> store \<Rightarrow> state \<Rightarrow> string \<Rightarrow> string \<Rightarrow> bool \<Rightarrow> bool \<Rightarrow> unit result" where
  "copy_move_path be s st old_path new_path force move =
     (if \<not> initialised s st then (Inl NotInitialised, st)
      else if \<not> trap s st (Some old_path) then (Inl InvalidPath, st)
      else if \<not> trap s st (Some new_path) then (Inl InvalidPath, st)
      else
        (case copy_move_args s st old_path new_path of
           (old_path_full, new_path_full) \<Rightarrow>
             (case copy_move be st old_path_full new_path_full force move of
                (Inl e, st1) \<Rightarrow> (Inl e, st1)
              | (Inr new_path_full, st1) \<Rightarrow>
                  (case (if os_path_exists st1 new_path_full
                         then reencrypt_path be st1 new_path_full else (Inr (), st1)) of
                     (Inl e, st2) \<Rightarrow> (Inl e, st2)
                   | (Inr u, st2) \<Rightarrow>
                       (let st3 =
                              (if move
                               then (let st' = shutil_rmtree st2 old_path_full
                                     in if \<not> os_path_exists st' old_path_full
                                        then git_remove_path s st' [old_path_full] [] True False
                                        else st')
                               else st2)
                        in (Inr (), git_add_path s st3 new_path_full
                                      ((if move then ''Rename'' else ''Copy'') @ '' ''
                                         @ normpath old_path @ '' to ''
                                         @ normpath new_path @ ''.'')))))))"

definition copy_path ::
  "backend \<Rightarrow> store \<Rightarrow> state \<Rightarrow> string \<Rightarrow> string \<Rightarrow> bool \<Rightarrow> unit result" where
  "copy_path be s st old_path new_path force =
     copy_move_path be s st old_path new_path force False"

definition move_path ::
  "backend \<Rightarrow> store \<Rightarrow> state \<Rightarrow> string \<Rightarrow> string \<Rightarrow> bool \<Rightarrow> unit result" where
  "move_path be s st old_path new_path force =
     copy_move_path be s st old_path new_path force True"

text \<open>
  \<^verbatim>\<open>list_dir\<close>, decorated with \<^verbatim>\<open>initialised\<close> and \<^verbatim>\<open>trap(1)\<close>. The loop over the sorted
  entries appends to \<open>dirs\<close> and \<open>keys\<close>. Python orders strings by code point, which is
  the byte order of their UTF-8 encoding.
\<close>

fun list_dir_loop ::
  "store \<Rightarrow> state \<Rightarrow> string \<Rightarrow> string list \<Rightarrow> string list \<times> string list
     \<Rightarrow> string list \<times> string list" where
  "list_dir_loop s st path_dir [] (dirs, keys) = (dirs, keys)"
| "list_dir_loop s st path_dir (entry # entries) (dirs, keys) =
     (if startswith entry ''.'' then list_dir_loop s st path_dir entries (dirs, keys)
      else
        (let entry_path = os_path_join path_dir entry
         in if os_path_isdir st entry_path
            then list_dir_loop s st path_dir entries
                   (dirs @ [get_store_name s st entry_path], keys)
            else if os_path_isfile st entry_path \<and> endswith entry ''.gpg''
            then list_dir_loop s st path_dir entries
                   (dirs, keys @ [get_store_name s st entry_path])
            else list_dir_loop s st path_dir entries (dirs, keys)))"

definition list_dir ::
  "store \<Rightarrow> state \<Rightarrow> string \<Rightarrow> (string list \<times> string list) result" where
  "list_dir s st path =
     (if \<not> initialised s st then (Inl NotInitialised, st)
      else if \<not> trap s st (Some path) then (Inl InvalidPath, st)
      else
        (let path = normpath path;
             path_dir = os_path_join (store_dir s) path
         in if \<not> os_path_isdir st path_dir then (Inl FileNotFoundError, st)
            else
              (case os_listdir st path_dir of
                 Inl e \<Rightarrow> (Inl e, st)
               | Inr entries \<Rightarrow>
                   (Inr (list_dir_loop s st path_dir (sort entries) ([], [])), st))))"

subsection \<open>Predicates used in the statements\<close>

text \<open>A proper file name: a path component that names an entry of a directory.\<close>

definition proper :: "string \<Rightarrow> bool" where
  "proper t = (t \<noteq> [] \<and> t \<noteq> ''.'' \<and> t \<noteq> ''..'' \<and> CHR ''/'' \<notin> set t)"

text \<open>
  A well-formed file system: every entry lies in a directory (the root or an entry that
  is a directory), so nothing lies below a file or below nothing.
\<close>

definition wf_fs :: "filesystem \<Rightarrow> bool" where
  "wf_fs fs = list_all (\<lambda>(q, n). q \<noteq> [] \<and> node_at fs (butlast q) = Some Dir) fs"

subsection \<open>A small store, for the examples\<close>

text \<open>
  A backend that marks a plaintext instead of encrypting it, a store at \<^verbatim>\<open>/s\<close> with git
  history, and a state in which the store is initialised and holds the key \<^verbatim>\<open>b\<close> of
  three lines.
\<close>

definition ex_backend :: backend where
  "ex_backend =
     \<lparr>encrypt = (\<lambda>fs r c. Some (''E:'' @ c)),
      decrypt = (\<lambda>b. if take 2 b = ''E:'' then Some (drop 2 b) else None),
      gen_password = (\<lambda>n sy. replicate (nat n) CHR ''p''),
      copy_move = (\<lambda>st a b f m. (Inr b, st))\<rparr>"

definition ex_store :: store where
  "ex_store = \<lparr>store_dir = ''/s'', repo = True\<rparr>"

definition ex_state :: state where
  "ex_state =
     \<lparr>files = [([''s''], Dir), ([''s'', ''.gpg-id''], File ''A\<newline>''),
               ([''s'', ''b.gpg''], File ''E:old\<newline>m1\<newline>m2'')],
      cwd = ''/home'', history = []\<rparr>"

definition ex_after_set :: state where
  "ex_after_set =
     \<lparr>files = [([''s''], Dir), ([''s'', ''.gpg-id''], File ''A\<newline>''),
               ([''s'', ''b.gpg''], File ''E:old\<newline>m1\<newline>m2''), ([''s'', ''x''], Dir),
               ([''s'', ''x'', ''a.gpg''], File ''E:hello'')],
      cwd = ''/home'',
      history = [GitAdd ''/s/x/a.gpg'' ''Add given password for x/a to store.'']\<rparr>"

text \<open>
  A state for listing: the store holds the keys \<^verbatim>\<open>b\<close>, \<^verbatim>\<open>a\<close>, \<^verbatim>\<open>c\<close> and \<^verbatim>\<open>a-b\<close>, two
  directories, a file that is no key and a hidden key file.
\<close>

definition ex_listing :: state where
  "ex_listing =
     \<lparr>files = [([''s''], Dir), ([''s'', ''.gpg-id''], File ''A\<newline>''),
               ([''s'', ''b.gpg''], File ''E:1''), ([''s'', ''zd''], Dir),
               ([''s'', ''a.gpg''], File ''E:2''), ([''s'', ''c.gpg''], File ''E:3''),
               ([''s'', ''notes.txt''], File ''n''), ([''s'', ''.h.gpg''], File ''E:4''),
               ([''s'', ''d''], Dir), ([''s'', ''d'', ''k.gpg''], File ''E:5''),
               ([''s'', ''a-b.gpg''], File ''E:6'')],
      cwd = ''/home'', history = []\<rparr>"

text \<open>
  The state after \<^verbatim>\<open>init_store([])\<close> on the first state, and the first state with the
  store as working directory.
\<close>

definition ex_after_deinit :: state where
  "ex_after_deinit =
     \<lparr>files = [], cwd = ''/home'',
      history = [GitRemove [''/s/.gpg-id''] ''Deinitialize /s/.gpg-id.'' True True,
                 GitAdd ''/s'' ''Reencrypt password store using new GPG id .'']\<rparr>"


section \<open>Paths\<close>


lemma str_split_not_Nil [simp]: "str_split sep s \<noteq> []"
  by (induction s) (auto split: list.splits)

lemma str_split_no_sep: "sep \<notin> set t \<Longrightarrow> str_split sep t = [t]"
  by (induction t) auto

lemma str_split_append_sep:
  "str_split sep (a @ sep # b) = str_split sep a @ str_split sep b"
  by (induction a) (auto split: list.splits)

lemma walk_append: "walk stack (xs @ ys) = walk (walk stack xs) ys"
  by (induction xs arbitrary: stack) auto


lemma walk_snoc_proper: "proper t \<Longrightarrow> walk stack (xs @ [t]) = t # walk stack xs"
  by (simp add: walk_append proper_def)

lemma walk_split_slashes:
  "walk stack (str_split CHR ''/'' (y @ replicate n CHR ''/'')) = walk stack (str_split CHR ''/'' y)"
proof (induction n)
  case 0
  then show ?case by simp
next
  case (Suc n)
  have "y @ replicate (Suc n) CHR ''/'' = (y @ replicate n CHR ''/'') @ CHR ''/'' # []"
    by (simp add: replicate_append_same)
  then show ?case
    using Suc by (simp only: str_split_append_sep walk_append) simp
qed

lemma walk_join:
  assumes "\<not> startswith b ''/''"
  shows "walk stack (str_split CHR ''/'' (os_path_join a b))
         = walk (walk stack (str_split CHR ''/'' a)) (str_split CHR ''/'' b)"
proof (cases "a = []")
  case True
  then show ?thesis using assms by (simp add: os_path_join_def)
next
  case False
  show ?thesis
  proof (cases "endswith a ''/''")
    case True
    then obtain a' where a: "a = a' @ ''/''"
      by (auto simp: endswith_def suffix_def)
    have "os_path_join a b = a' @ CHR ''/'' # b"
      using assms a by (simp add: os_path_join_def endswith_def)
    moreover have "str_split CHR ''/'' a = str_split CHR ''/'' a' @ [[]]"
      using str_split_append_sep [of "CHR ''/''" a' "[]"] a by simp
    ultimately show ?thesis
      by (simp add: str_split_append_sep walk_append)
  next
    case nend: False
    have "os_path_join a b = a @ CHR ''/'' # b"
      using assms False nend by (simp add: os_path_join_def)
    then show ?thesis
      by (simp add: str_split_append_sep walk_append)
  qed
qed

lemma join_abs: "startswith a ''/'' \<Longrightarrow> startswith (os_path_join a b) ''/''"
  by (auto simp: os_path_join_def startswith_def prefix_def)

lemma join_rel:
  "\<not> startswith a ''/'' \<Longrightarrow> \<not> startswith b ''/'' \<Longrightarrow> \<not> startswith (os_path_join a b) ''/''"
  by (cases a) (auto simp: os_path_join_def startswith_def)

lemma resolve_abs: "startswith p ''/'' \<Longrightarrow> resolve st p = rev (walk [] (str_split CHR ''/'' p))"
  by (simp add: resolve_def os_path_join_def)

lemma resolve_rel:
  "\<not> startswith p ''/'' \<Longrightarrow>
     resolve st p = rev (walk (walk [] (str_split CHR ''/'' (cwd st))) (str_split CHR ''/'' p))"
  by (simp add: resolve_def walk_join)

lemma resolve_join:
  assumes "\<not> startswith b ''/''"
  shows "resolve st (os_path_join a b) = rev (walk (rev (resolve st a)) (str_split CHR ''/'' b))"
proof (cases "startswith a ''/''")
  case True
  then show ?thesis
    using assms by (simp add: resolve_abs join_abs walk_join)
next
  case False
  then show ?thesis
    using assms by (simp add: resolve_rel join_rel walk_join)
qed


lemma str_split_snoc:
  "sep \<notin> set t \<Longrightarrow>
     str_split sep (a @ t) = butlast (str_split sep a) @ [last (str_split sep a) @ t]"
proof (induction a)
  case Nil
  then show ?case by (simp add: str_split_no_sep)
next
  case (Cons c a)
  obtain w ws where w: "str_split sep a = w # ws"
    by (cases "str_split sep a") auto
  show ?case
  proof (cases "ws = []")
    case True
    then show ?thesis using Cons w by simp
  next
    case False
    then show ?thesis using Cons w by simp
  qed
qed

lemma str_split_no_sep_in: "x \<in> set (str_split sep s) \<Longrightarrow> sep \<notin> set x"
  by (induction s arbitrary: x) (auto split: if_splits list.splits)

lemma long_not_dot: "4 \<le> length x \<Longrightarrow> x \<noteq> [] \<and> x \<noteq> ''.'' \<and> x \<noteq> ''..''"
  by auto

lemma last_segment_gpg:
  assumes "endswith q ''.gpg''"
  shows "proper (last (str_split CHR ''/'' q)) \<and> endswith (last (str_split CHR ''/'' q)) ''.gpg''"
proof -
  from assms obtain a where q: "q = a @ ''.gpg''"
    by (auto simp: endswith_def suffix_def)
  let ?l = "last (str_split CHR ''/'' a)"
  have l: "last (str_split CHR ''/'' q) = ?l @ ''.gpg''"
    using str_split_snoc [of "CHR ''/''" "''.gpg''" a] q by simp
  have "?l \<in> set (str_split CHR ''/'' a)" by simp
  then have "CHR ''/'' \<notin> set ?l" by (rule str_split_no_sep_in)
  moreover have "length (?l @ ''.gpg'') \<ge> 4" by simp
  then have "?l @ ''.gpg'' \<noteq> [] \<and> ?l @ ''.gpg'' \<noteq> ''.'' \<and> ?l @ ''.gpg'' \<noteq> ''..''"
    by (rule long_not_dot)
  moreover have "suffix ''.gpg'' (?l @ ''.gpg'')" by (rule suffixI) simp
  ultimately show ?thesis
    unfolding l proper_def endswith_def by simp
qed

lemma path_cases:
  obtains (plain) "sep \<notin> set q"
  | (slash) h t where "q = h @ sep # t" "sep \<notin> set t"
  using split_list_last [of sep q] by blast

lemma str_rfind_plain: "sep \<notin> set t \<Longrightarrow> str_rfind t sep = - 1"
proof -
  assume "sep \<notin> set t"
  then have "takeWhile (\<lambda>x. x \<noteq> sep) (rev t) = rev t"
    by (auto simp: takeWhile_eq_all_conv)
  then have "length (takeWhile (\<lambda>x. x \<noteq> sep) (rev t)) = length t"
    by (simp only: length_rev)
  then show ?thesis unfolding str_rfind_def by linarith
qed

lemma str_rfind_slash: "sep \<notin> set t \<Longrightarrow> str_rfind (h @ sep # t) sep = int (length h)"
proof -
  assume "sep \<notin> set t"
  then have "takeWhile (\<lambda>x. x \<noteq> sep) (rev t @ sep # rev h) = rev t"
    by (auto simp: takeWhile_tail takeWhile_eq_all_conv)
  then show ?thesis by (simp add: str_rfind_def)
qed

lemma takeWhile_eq_replicate:
  "takeWhile (\<lambda>y. y = c) ys = replicate (length (takeWhile (\<lambda>y. y = c) ys)) c"
  by (induction ys) auto

lemma str_rstrip_decomp: "\<exists>n. x = str_rstrip c x @ replicate n c"
proof -
  define T where "T = takeWhile (\<lambda>y. y = c) (rev x)"
  define D where "D = dropWhile (\<lambda>y. y = c) (rev x)"
  have "rev x = T @ D" unfolding T_def D_def by simp
  then have "rev (rev x) = rev (T @ D)" by (rule arg_cong)
  then have x: "x = rev D @ rev T" by simp
  have "T = replicate (length T) c" unfolding T_def by (rule takeWhile_eq_replicate)
  then have "rev T = rev (replicate (length T) c)" by (rule arg_cong)
  then have "rev T = replicate (length T) c" by (simp only: rev_replicate)
  with x have "x = rev D @ replicate (length T) c" by simp
  then show ?thesis unfolding str_rstrip_def D_def by blast
qed

lemma walk_split_rstrip:
  "walk stack (str_split CHR ''/'' (str_rstrip CHR ''/'' x)) = walk stack (str_split CHR ''/'' x)"
proof -
  obtain n where "x = str_rstrip CHR ''/'' x @ replicate n CHR ''/''"
    using str_rstrip_decomp by blast
  then show ?thesis
    using walk_split_slashes [of stack "str_rstrip CHR ''/'' x" n] by simp
qed

lemma dirname_plain: "CHR ''/'' \<notin> set t \<Longrightarrow> dirname t = []"
  by (simp add: dirname_def str_rfind_plain)

lemma dirname_slash:
  "CHR ''/'' \<notin> set t \<Longrightarrow>
     dirname (h @ CHR ''/'' # t) =
       (if h @ ''/'' \<noteq> replicate (Suc (length h)) CHR ''/''
        then str_rstrip CHR ''/'' (h @ ''/'') else h @ ''/'')"
proof -
  assume "CHR ''/'' \<notin> set t"
  then have "nat (str_rfind (h @ CHR ''/'' # t) CHR ''/'' + 1) = Suc (length h)"
    by (simp add: str_rfind_slash)
  moreover have "take (Suc (length h)) (h @ CHR ''/'' # t) = h @ ''/''"
    by simp
  ultimately show ?thesis
    by (simp add: dirname_def Let_def del: replicate_Suc)
qed

lemma walk_split_dirname:
  assumes "proper (last (str_split CHR ''/'' q))"
  shows "walk stack (str_split CHR ''/'' q)
         = last (str_split CHR ''/'' q) # walk stack (str_split CHR ''/'' (dirname q))"
proof (cases q rule: path_cases [where sep = "CHR ''/''"])
  case plain
  then show ?thesis
    using assms by (simp add: str_split_no_sep dirname_plain proper_def)
next
  case (slash h t)
  have sq: "str_split CHR ''/'' q = str_split CHR ''/'' h @ [t]"
    using slash by (simp add: str_split_append_sep str_split_no_sep)
  then have t: "last (str_split CHR ''/'' q) = t" by simp
  have "walk stack (str_split CHR ''/'' (dirname q)) = walk stack (str_split CHR ''/'' (h @ ''/''))"
    using slash by (simp add: dirname_slash walk_split_rstrip del: replicate_Suc)
  also have "\<dots> = walk stack (str_split CHR ''/'' h)"
    using str_split_append_sep [of "CHR ''/''" h "[]"] by (simp add: walk_append)
  finally show ?thesis
    using assms unfolding t sq by (simp add: walk_snoc_proper)
qed

lemma dropWhile_replicate_same: "dropWhile (\<lambda>y. y = c) (replicate n c) = []"
  by (induction n) auto

lemma str_rstrip_Nil_iff: "str_rstrip c x = [] \<longleftrightarrow> x = replicate (length x) c"
proof
  assume e: "str_rstrip c x = []"
  obtain n where n: "x = str_rstrip c x @ replicate n c"
    using str_rstrip_decomp by blast
  have "x = replicate n c" by (subst n) (simp add: e)
  then have "length x = n" by (metis length_replicate)
  with \<open>x = replicate n c\<close> show "x = replicate (length x) c" by simp
next
  assume r: "x = replicate (length x) c"
  have "str_rstrip c (replicate (length x) c) = []"
    by (simp add: str_rstrip_def dropWhile_replicate_same)
  with r show "str_rstrip c x = []" by simp
qed

lemma startswith_rstrip:
  assumes "x \<noteq> replicate (length x) c"
  shows "startswith (str_rstrip c x) [d] = startswith x [d]"
proof -
  obtain n where n: "x = str_rstrip c x @ replicate n c"
    using str_rstrip_decomp by blast
  have "str_rstrip c x \<noteq> []" using assms by (simp add: str_rstrip_Nil_iff)
  then obtain a as where "str_rstrip c x = a # as" by (cases "str_rstrip c x") auto
  with n have "x = a # as @ replicate n c" by simp
  then show ?thesis
    using \<open>str_rstrip c x = a # as\<close> by (auto simp: startswith_def)
qed

lemma dirname_abs: "startswith (dirname q) ''/'' = startswith q ''/''"
proof (cases q rule: path_cases [where sep = "CHR ''/''"])
  case plain
  then show ?thesis by (cases q) (auto simp: dirname_plain startswith_def)
next
  case (slash h t)
  show ?thesis
  proof (cases "h @ ''/'' = replicate (Suc (length h)) CHR ''/''")
    case True
    then have "dirname q = h @ ''/''" using slash by (simp add: dirname_slash del: replicate_Suc)
    moreover have "startswith (h @ ''/'') ''/''" using True by (simp add: startswith_def)
    moreover have "startswith q ''/''" using True slash 
      by (cases h) (auto simp: startswith_def)
    ultimately show ?thesis by simp
  next
    case False
    then have d: "dirname q = str_rstrip CHR ''/'' (h @ ''/'')"
      using slash by (simp add: dirname_slash del: replicate_Suc)
    have "startswith (str_rstrip CHR ''/'' (h @ ''/'')) ''/'' = startswith (h @ ''/'') ''/''"
      using False by (intro startswith_rstrip) simp
    moreover have "startswith (h @ ''/'') ''/'' = startswith q ''/''"
      using slash by (cases h) (auto simp: startswith_def)
    ultimately show ?thesis using d by simp
  qed
qed

lemma resolve_dirname:
  assumes "proper (last (str_split CHR ''/'' q))"
  shows "resolve st q = resolve st (dirname q) @ [last (str_split CHR ''/'' q)]"
proof (cases "startswith q ''/''")
  case True
  then show ?thesis
    using assms by (simp add: resolve_abs dirname_abs walk_split_dirname)
next
  case False
  then show ?thesis
    using assms by (simp add: resolve_rel dirname_abs walk_split_dirname)
qed


section \<open>The file system and the helpers\<close>

lemma ex_backend_inverse:
  "encrypt ex_backend fs r c = Some b \<Longrightarrow> decrypt ex_backend b = Some c"
  by (auto simp: ex_backend_def)


lemma resolve_cwd: "cwd st' = cwd st \<Longrightarrow> resolve st' p = resolve st p"
  by (simp add: resolve_def)

lemma trap_cwd: "cwd st' = cwd st \<Longrightarrow> trap s st' path = trap s st path"
  by (simp add: trap_def resolve_def split: option.splits)

lemma make_missing_preserves:
  "make_missing fs rp = Inr fs' \<Longrightarrow> map_of fs r = Some n \<Longrightarrow> map_of fs' r = Some n"
proof (induction rp arbitrary: fs')
  case Nil
  then show ?case by simp
next
  case (Cons c rp)
  show ?case
  proof (cases "map_of fs (rev (c # rp))")
    case None
    then obtain fs1 where fs1: "make_missing fs rp = Inr fs1"
      and fs': "fs' = AList.update (rev (c # rp)) Dir fs1"
      using Cons.prems(1) by (auto split: sum.splits)
    have "map_of fs1 r = Some n" using Cons.IH [OF fs1 Cons.prems(2)] .
    moreover have "r \<noteq> rev (c # rp)" using None Cons.prems(2) by auto
    ultimately show ?thesis unfolding fs' by (simp add: update_conv')
  next
    case (Some a)
    then have "fs' = fs" using Cons.prems(1) by (cases a) auto
    then show ?thesis using Cons.prems(2) by simp
  qed
qed

lemma os_makedirs_cases:
  assumes "os_makedirs st name exist_ok = Inr st1"
  shows "st1 = st \<or>
         (\<exists>fs'. make_missing (files st) (rev (resolve st name)) = Inr fs' \<and> st1 = st\<lparr>files := fs'\<rparr>)"
proof (cases "lookup st name")
  case None
  then show ?thesis
    using assms by (cases "make_missing (files st) (rev (resolve st name))")
      (simp_all add: os_makedirs_def)
next
  case (Some a)
  then show ?thesis
    using assms by (cases a) (simp_all add: os_makedirs_def split: if_splits)
qed

lemma os_makedirs_frame:
  assumes "os_makedirs st name exist_ok = Inr st1"
  shows "cwd st1 = cwd st" and "history st1 = history st"
    and "map_of (files st) r = Some n \<Longrightarrow> map_of (files st1) r = Some n"
proof -
  note c = os_makedirs_cases [OF assms]
  show "cwd st1 = cwd st" using c by auto
  show "history st1 = history st" using c by auto
  show "map_of (files st1) r = Some n" if "map_of (files st) r = Some n"
    using c that make_missing_preserves [of "files st" "rev (resolve st name)" _ r n] by auto
qed

lemma write_file_shape:
  assumes "write_file st p content = Inr st2"
  shows "st2 = st\<lparr>files := AList.update (resolve st p) (File content) (files st)\<rparr>"
    and "resolve st p \<noteq> []"
  using assms
  by (auto simp: write_file_def Let_def node_at_def split: option.splits node.splits if_splits)

lemma endswith_join: "endswith b x \<Longrightarrow> endswith (os_path_join a b) x"
  by (auto simp: os_path_join_def endswith_def suffix_def)

lemma resolve_gpg_id: "resolve st (os_path_join d ''.gpg-id'') = resolve st d @ [''.gpg-id'']"
  by (simp add: resolve_join startswith_def)

lemma resolve_key_path:
  assumes "endswith q ''.gpg''"
  obtains t where "resolve st q = resolve st (dirname q) @ [t]" "endswith t ''.gpg''"
  using assms last_segment_gpg [of q] resolve_dirname [of q st] by blast

lemma key_path_not_gpg_id:
  assumes "endswith q ''.gpg''"
  shows "resolve st q \<noteq> resolve st' (os_path_join d ''.gpg-id'')"
proof -
  obtain t where t: "resolve st q = resolve st (dirname q) @ [t]" "endswith t ''.gpg''"
    using assms by (rule resolve_key_path)
  have "\<not> suffix ''.gpg'' ''.gpg-id''" by (simp add: suffix_to_prefix)
  then have "t \<noteq> ''.gpg-id''" using t(2) by (auto simp: endswith_def)
  then show ?thesis using t(1) by (simp add: resolve_gpg_id)
qed


lemma isfile_iff: "os_path_isfile st p \<longleftrightarrow> (\<exists>x. lookup st p = Some (File x))"
  by (auto simp: os_path_isfile_def split: option.splits node.splits)

lemma git_add_path_frame [simp]:
  "files (git_add_path s st p m) = files st" "cwd (git_add_path s st p m) = cwd st"
  by (simp_all add: git_add_path_def)

lemma write_key_shape:
  assumes "write_key be st kp c = Inr st2"
  obtains b where "encrypt be (files st) (resolve st kp) c = Some b"
    "st2 = st\<lparr>files := AList.update (resolve st kp) (File b) (files st)\<rparr>"
    "resolve st kp \<noteq> []"
proof -
  from assms obtain b where b: "encrypt be (files st) (resolve st kp) c = Some b"
    and w: "write_file st kp b = Inr st2"
    by (cases "encrypt be (files st) (resolve st kp) c") (simp_all add: write_key_def)
  from write_file_shape [OF w] b that show ?thesis by blast
qed

lemma set_key_success:
  assumes "set_key be s st (Some name) c force = (Inr (), st')" and "name \<noteq> []"
  obtains st1 st2 where "initialised s st" "trap s st (Some name)"
    "os_makedirs st (os_path_join (store_dir s)
        (dirname (os_path_join (store_dir s) (normpath name @ ''.gpg'')))) True = Inr st1"
    "write_key be st1 (os_path_join (store_dir s) (normpath name @ ''.gpg'')) c = Inr st2"
    "st' = git_add_path s st2 (os_path_join (store_dir s) (normpath name @ ''.gpg''))
             (''Add given password for '' @ normpath name @ '' to store.'')"
proof -
  let ?kp = "os_path_join (store_dir s) (normpath name @ ''.gpg'')"
  have i: "initialised s st"
    using assms(1) by (rule_tac ccontr) (simp add: set_key_def)
  have t: "trap s st (Some name)"
    using assms(1) i by (rule_tac ccontr) (simp add: set_key_def)
  have e: "\<not> (os_path_exists st ?kp \<and> \<not> force)"
    using assms i t by (rule_tac ccontr) (simp add: set_key_def Let_def)
  obtain st1 where mk: "os_makedirs st (os_path_join (store_dir s) (dirname ?kp)) True = Inr st1"
    using assms i t e
    by (cases "os_makedirs st (os_path_join (store_dir s) (dirname ?kp)) True")
      (simp_all add: set_key_def Let_def)
  obtain st2 where wk: "write_key be st1 ?kp c = Inr st2"
    using assms i t e mk
    by (cases "write_key be st1 ?kp c") (simp_all add: set_key_def Let_def)
  have "st' = git_add_path s st2 ?kp (''Add given password for '' @ normpath name @ '' to store.'')"
    using assms i t e mk wk by (simp add: set_key_def Let_def)
  with i t mk wk that show ?thesis by blast
qed



lemma normpath_Nil: "normpath [] = ''.''"
  by (simp add: normpath_def)

lemma resolve_join_dot: "resolve st (os_path_join d ''.'') = resolve st d"
  by (simp add: resolve_join startswith_def)

lemma trap_empty: "trap s st (Some [])"
  by (simp add: trap_def normpath_Nil resolve_join_dot)

lemma trap_None: "trap s st None"
  by (simp add: trap_def)

lemma set_key_get_key:
  assumes inv: "\<And>fs r c b. encrypt be fs r c = Some b \<Longrightarrow> decrypt be b = Some c"
    and ne: "name \<noteq> []"
    and set: "set_key be s st (Some name) c force = (Inr (), st')"
  shows "get_key be s st' (Some name) = (Inr (Some c), st')"
proof -
  define kp where "kp = os_path_join (store_dir s) (normpath name @ ''.gpg'')"
  define gid where "gid = os_path_join (store_dir s) ''.gpg-id''"
  from set_key_success [OF set ne] obtain st1 st2 where
    i: "initialised s st" and t: "trap s st (Some name)"
    and mk: "os_makedirs st (os_path_join (store_dir s) (dirname kp)) True = Inr st1"
    and wk: "write_key be st1 kp c = Inr st2"
    and st': "st' = git_add_path s st2 kp (''Add given password for '' @ normpath name @ '' to store.'')"
    unfolding kp_def by blast
  from write_key_shape [OF wk] obtain b where
    enc: "encrypt be (files st1) (resolve st1 kp) c = Some b"
    and st2: "st2 = st1\<lparr>files := AList.update (resolve st1 kp) (File b) (files st1)\<rparr>"
    and kne: "resolve st1 kp \<noteq> []"
    by blast
  have cwd1: "cwd st1 = cwd st" using os_makedirs_frame(1) [OF mk] .
  have cwd': "cwd st' = cwd st" using st' st2 cwd1 by simp
  have r': "resolve st' p = resolve st p" for p using cwd' by (rule resolve_cwd)
  have r1: "resolve st1 p = resolve st p" for p using cwd1 by (rule resolve_cwd)
  have files': "files st' = AList.update (resolve st kp) (File b) (files st1)"
    using st' st2 r1 by simp
  have kpg: "endswith kp ''.gpg''"
    unfolding kp_def by (rule endswith_join) (simp add: endswith_def suffix_def)
  have neq: "resolve st kp \<noteq> resolve st gid"
    unfolding gid_def using kpg by (rule key_path_not_gpg_id)
  from i obtain x where x: "lookup st gid = Some (File x)"
    unfolding initialised_def is_init_def gid_def isfile_iff by blast
  have gne: "resolve st gid \<noteq> []" unfolding gid_def by (simp add: resolve_gpg_id)
  have "map_of (files st) (resolve st gid) = Some (File x)"
    using x gne by (simp add: lookup_def node_at_def)
  then have "map_of (files st1) (resolve st gid) = Some (File x)"
    by (rule os_makedirs_frame(3) [OF mk])
  then have "lookup st' gid = Some (File x)"
    using neq gne by (simp add: lookup_def node_at_def r' files' update_conv')
  then have i': "initialised s st'"
    unfolding initialised_def is_init_def gid_def [symmetric] isfile_iff by blast
  have t': "trap s st' (Some name)" using t trap_cwd [OF cwd'] by simp
  have lk: "lookup st' kp = Some (File b)"
    using kne by (simp add: lookup_def node_at_def r' r1 files' update_conv')
  then have f: "os_path_isfile st' kp" unfolding isfile_iff by blast
  have "decrypt be b = Some c" using enc by (rule inv)
  then have rd: "read_key be st' kp = Inr c" using lk by (simp add: read_key_def)
  show ?thesis
    using i' t' ne f rd by (simp add: get_key_def Let_def kp_def [symmetric])
qed



lemma key_path_abs:
  "startswith (store_dir s) ''/'' \<Longrightarrow>
     os_path_join (store_dir s) (dirname (os_path_join (store_dir s) x))
       = dirname (os_path_join (store_dir s) x)"
proof -
  assume "startswith (store_dir s) ''/''"
  then have "startswith (os_path_join (store_dir s) x) ''/''" by (rule join_abs)
  then have "startswith (dirname (os_path_join (store_dir s) x)) ''/''"
    by (simp add: dirname_abs)
  then show ?thesis by (simp add: os_path_join_def)
qed

lemma wf_fs_parent:
  assumes "wf_fs fs" and "map_of fs r = Some n"
  shows "r \<noteq> [] \<and> node_at fs (butlast r) = Some Dir"
proof -
  from assms(2) have "(r, n) \<in> set fs" by (rule map_of_SomeD)
  with assms(1) show ?thesis by (auto simp: wf_fs_def list_all_iff)
qed

text \<open>A key file that is present lies in a directory, which \<^verbatim>\<open>makedirs\<close> leaves alone,
  and can be overwritten.\<close>

lemma present_key_dir:
  assumes wf: "wf_fs (files st)" and ab: "startswith (store_dir s) ''/''"
    and kp: "kp = os_path_join (store_dir s) (x @ ''.gpg'')"
    and pr: "lookup st kp = Some (File old)"
  shows "os_makedirs st (os_path_join (store_dir s) (dirname kp)) True = Inr st"
    and "write_file st kp blob = Inr (st\<lparr>files := AList.update (resolve st kp) (File blob) (files st)\<rparr>)"
proof -
  have "endswith kp ''.gpg''"
    unfolding kp by (rule endswith_join) (simp add: endswith_def suffix_def)
  then obtain t where t: "resolve st kp = resolve st (dirname kp) @ [t]"
    by (rule resolve_key_path)
  then have ne: "resolve st kp \<noteq> []" by simp
  with pr have m: "map_of (files st) (resolve st kp) = Some (File old)"
    by (simp add: lookup_def node_at_def)
  from wf_fs_parent [OF wf m] t
  have d: "node_at (files st) (resolve st (dirname kp)) = Some Dir" by simp
  have j: "os_path_join (store_dir s) (dirname kp) = dirname kp"
    unfolding kp using ab by (rule key_path_abs)
  show "os_makedirs st (os_path_join (store_dir s) (dirname kp)) True = Inr st"
    using d by (simp add: j os_makedirs_def lookup_def)
  have "butlast (resolve st kp) = resolve st (dirname kp)" using t by simp
  then show "write_file st kp blob
      = Inr (st\<lparr>files := AList.update (resolve st kp) (File blob) (files st)\<rparr>)"
    using d m ne by (simp add: write_file_def Let_def node_at_def)
qed

lemma exists_iff: "os_path_exists st p \<longleftrightarrow> lookup st p \<noteq> None"
  by (auto simp: os_path_exists_def split: option.splits)

lemma set_key_present:
  assumes i: "initialised s st" and t: "trap s st (Some n)" and ne: "n \<noteq> []"
    and pr: "lookup st (os_path_join (store_dir s) (normpath n @ ''.gpg'')) = Some (File old)"
  shows "set_key be s st (Some n) c False = (Inl FileExistsError, st)"
  using assms by (simp add: set_key_def Let_def exists_iff)

lemma set_key_force:
  assumes wf: "wf_fs (files st)" and ab: "startswith (store_dir s) ''/''"
    and i: "initialised s st" and t: "trap s st (Some n)" and ne: "n \<noteq> []"
    and pr: "lookup st (os_path_join (store_dir s) (normpath n @ ''.gpg'')) = Some (File old)"
    and enc: "encrypt be (files st)
        (resolve st (os_path_join (store_dir s) (normpath n @ ''.gpg''))) c = Some blob"
  shows "set_key be s st (Some n) c True =
     (Inr (), git_add_path s
        (st\<lparr>files := AList.update (resolve st (os_path_join (store_dir s) (normpath n @ ''.gpg'')))
                   (File blob) (files st)\<rparr>)
        (os_path_join (store_dir s) (normpath n @ ''.gpg''))
        (''Add given password for '' @ normpath n @ '' to store.''))"
proof -
  let ?kp = "os_path_join (store_dir s) (normpath n @ ''.gpg'')"
  note d = present_key_dir [OF wf ab refl pr]
  have "write_key be st ?kp c
      = Inr (st\<lparr>files := AList.update (resolve st ?kp) (File blob) (files st)\<rparr>)"
    using enc d(2) by (simp add: write_key_def)
  then show ?thesis
    using i t ne d(1) by (simp add: set_key_def Let_def)
qed



lemma str_split_join:
  "xs \<noteq> [] \<Longrightarrow> list_all (\<lambda>x. sep \<notin> set x) xs \<Longrightarrow> str_split sep (str_join [sep] xs) = xs"
proof (induction "[sep]" xs rule: str_join.induct)
  case 1
  then show ?case by simp
next
  case (2 x)
  then show ?case by (simp add: str_split_no_sep)
next
  case (3 x y zs)
  then have "str_split sep (str_join [sep] (y # zs)) = y # zs" by simp
  moreover have "str_split sep x = [x]" using 3 by (simp add: str_split_no_sep)
  ultimately show ?case
    using str_split_append_sep [of sep x "str_join [sep] (y # zs)"] by simp
qed

lemma lines_replace_first:
  assumes "CHR ''\<newline>'' \<notin> set pw"
  shows "str_split CHR ''\<newline>'' (str_join ''\<newline>'' ((str_split CHR ''\<newline>'' d)[0 := pw]))
         = pw # tl (str_split CHR ''\<newline>'' d)"
proof -
  obtain l ls where l: "str_split CHR ''\<newline>'' d = l # ls"
    by (cases "str_split CHR ''\<newline>'' d") auto
  have "list_all (\<lambda>x. CHR ''\<newline>'' \<notin> set x) (str_split CHR ''\<newline>'' d)"
    by (auto simp: list_all_iff dest: str_split_no_sep_in)
  then have "list_all (\<lambda>x. CHR ''\<newline>'' \<notin> set x) (pw # ls)"
    using assms l by simp
  then have "str_split CHR ''\<newline>'' (str_join ''\<newline>'' (pw # ls)) = pw # ls"
    by (intro str_split_join) simp_all
  then show ?thesis using l by simp
qed

lemma gen_key_inplace_eq:
  assumes wf: "wf_fs (files st)" and ab: "startswith (store_dir s) ''/''"
    and i: "initialised s st" and t: "trap s st (Some n)" and ne: "n \<noteq> []"
    and pr: "lookup st (os_path_join (store_dir s) (normpath n @ ''.gpg'')) = Some (File blob)"
    and dec: "decrypt be blob = Some key_data"
    and enc: "encrypt be (files st)
        (resolve st (os_path_join (store_dir s) (normpath n @ ''.gpg'')))
        (str_join ''\<newline>'' ((str_split CHR ''\<newline>'' key_data)[0 := gen_password be len symbols]))
        = Some blob'"
  shows "gen_key be s st (Some n) len symbols force True =
     (Inr (Some (gen_password be len symbols)),
      git_add_path s
        (st\<lparr>files := AList.update (resolve st (os_path_join (store_dir s) (normpath n @ ''.gpg'')))
                   (File blob') (files st)\<rparr>)
        (os_path_join (store_dir s) (normpath n @ ''.gpg''))
        (''Replace generated password for '' @ normpath n @ ''.''))"
proof -
  let ?kp = "os_path_join (store_dir s) (normpath n @ ''.gpg'')"
  note d = present_key_dir [OF wf ab refl pr]
  have r: "read_key be st ?kp = Inr key_data"
    using pr dec by (simp add: read_key_def)
  have w: "write_key be st ?kp
        (str_join ''\<newline>'' ((str_split CHR ''\<newline>'' key_data)[0 := gen_password be len symbols]))
      = Inr (st\<lparr>files := AList.update (resolve st ?kp) (File blob') (files st)\<rparr>)"
    using enc d(2) by (simp add: write_key_def)
  show ?thesis
    using i t ne d(1) r w by (simp add: gen_key_def Let_def)
qed



lemma isfile_not_isdir: "os_path_isfile st p \<Longrightarrow> \<not> os_path_isdir st p"
  by (auto simp: os_path_isfile_def os_path_isdir_def split: option.splits node.splits)

lemma list_dir_loop_eq:
  "list_dir_loop s st pd es (ds, ks) =
     (ds @ map (\<lambda>e. get_store_name s st (os_path_join pd e))
             (filter (\<lambda>e. \<not> startswith e ''.'' \<and> os_path_isdir st (os_path_join pd e)) es),
      ks @ map (\<lambda>e. get_store_name s st (os_path_join pd e))
             (filter (\<lambda>e. \<not> startswith e ''.'' \<and> os_path_isfile st (os_path_join pd e)
                           \<and> endswith e ''.gpg'') es))"
  by (induction es arbitrary: ds ks) (auto simp: Let_def isfile_not_isdir)

lemma os_listdir_distinct: "os_listdir st p = Inr es \<Longrightarrow> distinct es"
  by (auto simp: os_listdir_def split: option.splits node.splits)

lemma os_listdir_isdir: "os_path_isdir st p \<Longrightarrow> \<exists>es. os_listdir st p = Inr es"
  by (auto simp: os_listdir_def os_path_isdir_def split: option.splits node.splits)

lemma sorted_filter_sort: "sorted (filter P (sort (xs :: string list)))"
  by (rule sorted_wrt_filter) simp



lemma init_store_path_cases:
  "init_store_path s st path = Inl FileExistsError
   \<or> init_store_path s st path = Inr (case path of None \<Rightarrow> store_dir s | Some p \<Rightarrow> normpath p)"
  by (simp add: init_store_path_def Let_def split: option.splits)

lemma init_store_path_ok:
  assumes "\<forall>p. path = Some p \<longrightarrow> os_path_isdir st (normpath p) \<or> \<not> os_path_exists st (normpath p)"
  shows "init_store_path s st path = Inr (case path of None \<Rightarrow> store_dir s | Some p \<Rightarrow> normpath p)"
  using assms by (auto simp: init_store_path_def Let_def split: option.splits)

lemma init_store_set_exists:
  assumes "os_path_exists st gpg_id_dir"
  shows "init_store_set s st ids gpg_id_dir gpg_id_path = (Inl FileExistsError, st)"
proof -
  from assms obtain n where n: "lookup st gpg_id_dir = Some n"
    by (auto simp: exists_iff)
  then have "os_makedirs st gpg_id_dir False = Inl FileExistsError"
    by (cases n) (simp_all add: os_makedirs_def)
  then show ?thesis by (simp add: init_store_set_def)
qed

lemma isdir_exists: "os_path_isdir st p \<Longrightarrow> os_path_exists st p"
  by (auto simp: os_path_isdir_def os_path_exists_def split: option.splits)

lemma init_store_exists:
  assumes t: "trap s st path" and ne: "ids \<noteq> []"
    and e: "os_path_exists st (os_path_join (store_dir s)
              (case path of None \<Rightarrow> store_dir s | Some p \<Rightarrow> normpath p))"
  shows "init_store be s st (Some ids) path = (Inl FileExistsError, st)"
proof -
  from init_store_path_cases [of s st path] show ?thesis
  proof
    assume "init_store_path s st path = Inl FileExistsError"
    then show ?thesis using t by (simp add: init_store_def)
  next
    assume "init_store_path s st path
      = Inr (case path of None \<Rightarrow> store_dir s | Some p \<Rightarrow> normpath p)"
    then show ?thesis
      using t ne init_store_set_exists [OF e] by (simp add: init_store_def Let_def)
  qed
qed



lemma map_of_filter_key:
  "map_of (filter (\<lambda>(k, v). P k) xs) k = (if P k then map_of xs k else None)"
  by (induction xs) auto

lemma git_remove_path_frame [simp]:
  "files (git_remove_path s st ps m r c) = files st" "cwd (git_remove_path s st ps m r c) = cwd st"
  by (simp_all add: git_remove_path_def)

lemma isdir_iff: "os_path_isdir st p \<longleftrightarrow> lookup st p = Some Dir"
  by (auto simp: os_path_isdir_def split: option.splits node.splits)

lemma reencrypt_keys_no_files:
  assumes "\<And>q b. q \<in> set qs \<Longrightarrow> map_of (files st) q \<noteq> Some (File b)"
  shows "reencrypt_keys be st qs = (Inr (), st)"
  using assms
proof (induction qs)
  case Nil
  then show ?case by simp
next
  case (Cons q qs)
  have r: "reencrypt_keys be st qs = (Inr (), st)"
    by (rule Cons.IH) (simp add: Cons.prems)
  show ?case
  proof (cases "map_of (files st) q")
    case None
    then show ?thesis using r by simp
  next
    case (Some a)
    show ?thesis
    proof (cases a)
      case (File x)
      with Some Cons.prems [of q x] show ?thesis by simp
    next
      case Dir
      with Some r show ?thesis by simp
    qed
  qed
qed

lemma reencrypt_path_nothing:
  assumes "\<And>q n b. (q, n) \<in> set (files st) \<Longrightarrow> q \<noteq> [] \<Longrightarrow> prefix (resolve st path) q
             \<Longrightarrow> map_of (files st) q \<noteq> Some (File b)"
  shows "reencrypt_path be st path = (Inr (), st)"
  unfolding reencrypt_path_def
  by (rule reencrypt_keys_no_files) (use assms in auto)

lemma init_store_delete_subtree:
  assumes wf: "wf_fs (files st)"
    and f: "os_path_isfile st (os_path_join gpg_id_dir ''.gpg-id'')"
  shows "init_store_delete s st gpg_id_dir (os_path_join gpg_id_dir ''.gpg-id'') =
     (Inr (),
      (git_remove_path s
         (st\<lparr>files := AList.delete (resolve st (os_path_join gpg_id_dir ''.gpg-id'')) (files st)\<rparr>)
         [os_path_join gpg_id_dir ''.gpg-id'']
         (''Deinitialize '' @ os_path_join gpg_id_dir ''.gpg-id'' @ ''.'') True True)
       \<lparr>files := filter (\<lambda>(q, n). \<not> (if rmdir_refuses gpg_id_dir
                                        then strict_prefix (resolve st gpg_id_dir) q
                                        else prefix (resolve st gpg_id_dir) q))
                   (AList.delete (resolve st (os_path_join gpg_id_dir ''.gpg-id'')) (files st))\<rparr>)"
    and "node_at (AList.delete (resolve st (os_path_join gpg_id_dir ''.gpg-id'')) (files st))
           (resolve st gpg_id_dir) = Some Dir"
proof -
  let ?gp = "os_path_join gpg_id_dir ''.gpg-id''"
  let ?gr = "resolve st ?gp"
  let ?r = "resolve st gpg_id_dir"
  let ?st1 = "st\<lparr>files := AList.delete ?gr (files st)\<rparr>"
  let ?st2 = "git_remove_path s ?st1 [?gp] (''Deinitialize '' @ ?gp @ ''.'') True True"
  have gr: "?gr = ?r @ [''.gpg-id'']" by (rule resolve_gpg_id)
  from f obtain x where x: "lookup st ?gp = Some (File x)"
    unfolding isfile_iff by blast
  then have m: "map_of (files st) ?gr = Some (File x)"
    using gr by (simp add: lookup_def node_at_def)
  have rm: "os_remove st ?gp = Inr ?st1"
    using x by (simp add: os_remove_def)
  from wf_fs_parent [OF wf m] gr have "node_at (files st) ?r = Some Dir" by simp
  moreover have "?r \<noteq> ?gr" using gr by simp
  ultimately show n: "node_at (AList.delete ?gr (files st)) ?r = Some Dir"
    by (auto simp: node_at_def delete_conv' split: if_splits)
  have f2: "files ?st2 = AList.delete ?gr (files st)" by simp
  have r2: "resolve ?st2 gpg_id_dir = ?r" by (simp add: resolve_def)
  from n have d: "os_path_isdir ?st2 gpg_id_dir"
    unfolding isdir_iff lookup_def r2 f2 .
  have "shutil_rmtree ?st2 gpg_id_dir
      = ?st2\<lparr>files := filter (\<lambda>(q, n). \<not> (if rmdir_refuses gpg_id_dir then strict_prefix ?r q
                                             else prefix ?r q))
                         (AList.delete ?gr (files st))\<rparr>"
    unfolding shutil_rmtree_def r2 f2 using d by simp
  then show "init_store_delete s st gpg_id_dir ?gp =
     (Inr (), ?st2\<lparr>files := filter (\<lambda>(q, n). \<not> (if rmdir_refuses gpg_id_dir
                                                   then strict_prefix ?r q else prefix ?r q))
                               (AList.delete ?gr (files st))\<rparr>)"
    using f rm by (simp add: init_store_delete_def Let_def)
qed

lemma normpath_comps_names:
  assumes "list_all (\<lambda>c. c \<noteq> [] \<and> CHR ''/'' \<notin> set c) acc"
    and "list_all (\<lambda>c. CHR ''/'' \<notin> set c) comps"
  shows "list_all (\<lambda>c. c \<noteq> [] \<and> CHR ''/'' \<notin> set c) (normpath_comps i acc comps)"
  using assms
proof (induction comps arbitrary: acc)
  case Nil
  then show ?case by simp
next
  case (Cons c comps)
  have b: "list_all (\<lambda>c. c \<noteq> [] \<and> CHR ''/'' \<notin> set c) (butlast acc)"
    using Cons.prems(1) by (auto simp: list_all_iff dest: in_set_butlastD)
  have a: "c \<noteq> [] \<Longrightarrow> list_all (\<lambda>c. c \<noteq> [] \<and> CHR ''/'' \<notin> set c) (acc @ [c])"
    using Cons.prems by simp
  have r: "list_all (\<lambda>c. CHR ''/'' \<notin> set c) comps" using Cons.prems(2) by simp
  show ?case
    using Cons.IH [OF Cons.prems(1) r] Cons.IH [OF b r] Cons.IH [OF a r]
    by (cases "acc = []") simp_all
qed

lemma str_join_last:
  "comps \<noteq> [] \<Longrightarrow> list_all (\<lambda>c. c \<noteq> [] \<and> CHR ''/'' \<notin> set c) comps \<Longrightarrow>
     str_join ''/'' comps \<noteq> [] \<and> last (str_join ''/'' comps) \<noteq> CHR ''/''"
proof (induction "''/''" comps rule: str_join.induct)
  case 1
  then show ?case by simp
next
  case (2 x)
  then have "x \<noteq> []" "CHR ''/'' \<notin> set x" by simp_all
  then show ?case using last_in_set [of x] by (auto simp del: last_in_set)
next
  case (3 x y zs)
  then show ?case by simp
qed

lemma endswith_slash_iff: "endswith x ''/'' \<longleftrightarrow> x \<noteq> [] \<and> last x = CHR ''/''"
proof (cases x rule: rev_cases)
  case Nil
  then show ?thesis by (simp add: endswith_def)
next
  case (snoc ys y)
  then show ?thesis by (auto simp: endswith_def suffix_def)
qed

lemma normpath_slash:
  assumes "endswith (normpath p) ''/''"
  shows "normpath p = ''/'' \<or> normpath p = ''//''"
proof -
  define i where "i = (if startswith p ''/''
               then (if startswith p ''//'' \<and> \<not> startswith p ''///'' then 2 else 1)
               else (0::nat))"
  define comps where "comps = normpath_comps i [] (str_split CHR ''/'' p)"
  define q where "q = replicate i CHR ''/'' @ str_join ''/'' comps"
  have n: "normpath p = (if p = [] then ''.'' else if q = [] then ''.'' else q)"
    by (simp add: normpath_def Let_def i_def comps_def q_def)
  have "\<not> endswith ''.'' ''/''" by (simp add: endswith_slash_iff)
  with assms n have nq: "normpath p = q" and e: "endswith q ''/''" and qne: "q \<noteq> []"
    by (auto split: if_splits)
  have "list_all (\<lambda>c. CHR ''/'' \<notin> set c) (str_split CHR ''/'' p)"
    by (auto simp: list_all_iff dest: str_split_no_sep_in)
  then have names: "list_all (\<lambda>c. c \<noteq> [] \<and> CHR ''/'' \<notin> set c) comps"
    unfolding comps_def by (intro normpath_comps_names) simp_all
  have "comps = []"
  proof (rule ccontr)
    assume "comps \<noteq> []"
    from str_join_last [OF this names] have "last q \<noteq> CHR ''/''"
      by (simp add: q_def)
    with e show False by (simp add: endswith_slash_iff)
  qed
  then have "q = replicate i CHR ''/''" by (simp add: q_def)
  moreover have "i = 0 \<or> i = 1 \<or> i = 2" by (auto simp: i_def)
  ultimately have "q = ''/'' \<or> q = ''//''" using qne by (auto simp: numeral_2_eq_2)
  with nq show ?thesis by simp
qed

lemma normpath_not_Nil: "normpath p \<noteq> []"
  by (simp add: normpath_def Let_def)

lemma join_endswith_slash:
  assumes "b \<noteq> []" and "endswith (os_path_join a b) ''/''"
  shows "endswith b ''/''"
proof -
  have "os_path_join a b = b \<or> os_path_join a b = a @ b \<or> os_path_join a b = a @ ''/'' @ b"
    by (simp add: os_path_join_def)
  then have "last (os_path_join a b) = last b" using assms(1) by auto
  then show ?thesis using assms by (simp add: endswith_slash_iff)
qed

lemma isdir_slashes: "os_path_isdir st ''/''" "os_path_isdir st ''//''"
  by (simp_all add: isdir_iff lookup_def node_at_def resolve_abs startswith_def)

lemma new_path_full_slash:
  assumes "endswith (os_path_join d (normpath p)) ''/''"
  shows "os_path_isdir st (os_path_join d (normpath p))"
proof -
  from join_endswith_slash [OF normpath_not_Nil assms]
  have "normpath p = ''/'' \<or> normpath p = ''//''" by (rule normpath_slash)
  then show ?thesis
    by (auto simp: os_path_join_def startswith_def isdir_slashes)
qed


lemma init_store_new_directory_example:
  "init_store ex_backend ex_store ex_state (Some [''B'', ''C'']) (Some ''sub/d'') =
     (Inr (),
      \<lparr>files = [([''s''], Dir), ([''s'', ''.gpg-id''], File ''A\<newline>''),
                ([''s'', ''b.gpg''], File ''E:old\<newline>m1\<newline>m2''),
                ([''s'', ''sub''], Dir), ([''s'', ''sub'', ''d''], Dir),
                ([''s'', ''sub'', ''d'', ''.gpg-id''], File ''B\<newline>C\<newline>'')],
       cwd = ''/home'',
       history = [GitAdd ''/s/sub/d/.gpg-id'' ''Set GPG id to B, C.'',
                  GitAdd ''/s/sub/d'' ''Reencrypt password store using new GPG id B, C.'']\<rparr>)"
  by code_simp



lemma make_missing_ok:
  assumes "\<And>q b. prefix q (rev rp) \<Longrightarrow> map_of fs q \<noteq> Some (File b)"
  shows "\<exists>fs'. make_missing fs rp = Inr fs' \<and> node_at fs' (rev rp) = Some Dir
           \<and> (\<forall>k. \<not> prefix k (rev rp) \<longrightarrow> map_of fs' k = map_of fs k)"
  using assms
proof (induction rp)
  case Nil
  then show ?case by (simp add: node_at_def)
next
  case (Cons c rp)
  let ?r = "rev (c # rp)"
  show ?case
  proof (cases "map_of fs ?r")
    case None
    have "\<And>q b. prefix q (rev rp) \<Longrightarrow> map_of fs q \<noteq> Some (File b)"
      using Cons.prems by (simp add: prefix_order.trans)
    from Cons.IH [OF this] obtain fs1 where fs1: "make_missing fs rp = Inr fs1"
      and fr: "\<forall>k. \<not> prefix k (rev rp) \<longrightarrow> map_of fs1 k = map_of fs k"
      by blast
    have m: "make_missing fs (c # rp) = Inr (AList.update ?r Dir fs1)"
      using None fs1 by simp
    have "node_at (AList.update ?r Dir fs1) ?r = Some Dir"
      by (simp add: node_at_def update_conv')
    moreover have "map_of (AList.update ?r Dir fs1) k = map_of fs k" if "\<not> prefix k ?r" for k
    proof -
      from that have "k \<noteq> ?r" by auto
      moreover from that have "\<not> prefix k (rev rp)" by (auto simp: prefix_def)
      ultimately show ?thesis using fr by (simp add: update_conv')
    qed
    ultimately show ?thesis using m by blast
  next
    case (Some a)
    show ?thesis
    proof (cases a)
      case (File b)
      with Some Cons.prems [of ?r b] show ?thesis by simp
    next
      case Dir
      with Some show ?thesis by (simp add: node_at_def)
    qed
  qed
qed

lemma os_makedirs_ok:
  assumes "\<And>q b. prefix q (resolve st name) \<Longrightarrow> map_of (files st) q \<noteq> Some (File b)"
  shows "\<exists>st1. os_makedirs st name True = Inr st1 \<and> cwd st1 = cwd st
           \<and> node_at (files st1) (resolve st name) = Some Dir
           \<and> (\<forall>k. \<not> prefix k (resolve st name) \<longrightarrow> map_of (files st1) k = map_of (files st) k)"
proof (cases "lookup st name")
  case None
  from make_missing_ok [of "rev (resolve st name)" "files st"] assms
  obtain fs' where "make_missing (files st) (rev (resolve st name)) = Inr fs'"
    "node_at fs' (resolve st name) = Some Dir"
    "\<forall>k. \<not> prefix k (resolve st name) \<longrightarrow> map_of fs' k = map_of (files st) k"
    by auto
  then show ?thesis using None by (simp add: os_makedirs_def)
next
  case (Some a)
  show ?thesis
  proof (cases a)
    case (File b)
    with Some assms [of "resolve st name" b] show ?thesis
      by (auto simp: lookup_def node_at_def split: if_splits)
  next
    case Dir
    with Some show ?thesis by (simp add: os_makedirs_def lookup_def)
  qed
qed

lemma set_key_absent:
  assumes i: "initialised s st" and t: "trap s st (Some n)" and ne: "n \<noteq> []"
    and ab: "startswith (store_dir s) ''/''"
    and kp: "kp = os_path_join (store_dir s) (normpath n @ ''.gpg'')"
    and absent: "lookup st kp = None"
    and anc: "\<And>q b. strict_prefix q (resolve st kp) \<Longrightarrow> map_of (files st) q \<noteq> Some (File b)"
    and enc: "\<And>fs. encrypt be fs (resolve st kp) c \<noteq> None"
  shows "\<exists>st'. set_key be s st (Some n) c force = (Inr (), st')"
proof -
  have "endswith kp ''.gpg''"
    unfolding kp by (rule endswith_join) (simp add: endswith_def suffix_def)
  then obtain t where r: "resolve st kp = resolve st (dirname kp) @ [t]"
    by (rule resolve_key_path)
  have j: "os_path_join (store_dir s) (dirname kp) = dirname kp"
    unfolding kp using ab by (rule key_path_abs)
  have "\<And>q b. prefix q (resolve st (dirname kp)) \<Longrightarrow> map_of (files st) q \<noteq> Some (File b)"
    by (rule anc) (simp add: r strict_prefix_def prefix_def, auto)
  from os_makedirs_ok [OF this] obtain st1 where
    mk: "os_makedirs st (dirname kp) True = Inr st1" and c1: "cwd st1 = cwd st"
    and d: "node_at (files st1) (resolve st (dirname kp)) = Some Dir"
    and fr: "\<forall>k. \<not> prefix k (resolve st (dirname kp)) \<longrightarrow> map_of (files st1) k = map_of (files st) k"
    by blast
  have r1: "resolve st1 kp = resolve st kp" using c1 by (rule resolve_cwd)
  have "\<not> prefix (resolve st kp) (resolve st (dirname kp))" by (simp add: r)
  with fr absent have "map_of (files st1) (resolve st kp) = None"
    by (simp add: lookup_def node_at_def r)
  with d have "\<exists>st2. write_file st1 kp blob = Inr st2" for blob
    by (simp add: write_file_def Let_def r1 node_at_def r)
  moreover obtain blob where "encrypt be (files st1) (resolve st1 kp) c = Some blob"
    using enc [of "files st1"] r1 by auto
  ultimately obtain st2 where "write_key be st1 kp c = Inr st2"
    by (auto simp: write_key_def)
  moreover have "\<not> os_path_exists st kp" using absent by (simp add: exists_iff)
  ultimately show ?thesis
    using i t ne mk by (simp add: set_key_def Let_def kp [symmetric] j)
qed

section \<open>The claims\<close>

subsection \<open>Round trip of \<^verbatim>\<open>set_key\<close> and \<^verbatim>\<open>get_key\<close>\<close>

text \<open>
  Claim C1. For a non-empty name and any content \<open>c\<close>, provided decryption is a left
  inverse of encryption: whenever \<^verbatim>\<open>set_key(name, c, force)\<close> returns, a following
  \<^verbatim>\<open>get_key(name)\<close> returns exactly \<open>c\<close>; and \<^verbatim>\<open>set_key\<close> does return where the key is
  absent, on an initialised store with an absolute root, for a name inside the store
  whose key file has no file among the directories above it, when the backend encrypts
  \<open>c\<close>. (A key that is present and \<open>force\<close> are claim C5.)
\<close>

theorem set_then_get:
  assumes "\<And>fs r c b. encrypt be fs r c = Some b \<Longrightarrow> decrypt be b = Some c"
    and "name \<noteq> []"
    and "key_path = os_path_join (store_dir s) (normpath name @ ''.gpg'')"
  shows "(\<forall>st'. set_key be s st (Some name) c force = (Inr (), st')
            \<longrightarrow> get_key be s st' (Some name) = (Inr (Some c), st'))
    \<and> (initialised s st \<and> trap s st (Some name) \<and> startswith (store_dir s) ''/''
          \<and> lookup st key_path = None
          \<and> (\<forall>q b. strict_prefix q (resolve st key_path) \<longrightarrow> map_of (files st) q \<noteq> Some (File b))
          \<and> (\<forall>fs. encrypt be fs (resolve st key_path) c \<noteq> None)
        \<longrightarrow> (\<exists>st'. set_key be s st (Some name) c force = (Inr (), st')
                 \<and> get_key be s st' (Some name) = (Inr (Some c), st')))"
proof -
  have g: "get_key be s st' (Some name) = (Inr (Some c), st')"
    if "set_key be s st (Some name) c force = (Inr (), st')" for st'
  proof (rule set_key_get_key)
    show "\<And>fs r c b. encrypt be fs r c = Some b \<Longrightarrow> decrypt be b = Some c"
      by (rule assms(1))
    show "name \<noteq> []" by (rule assms(2))
    show "set_key be s st (Some name) c force = (Inr (), st')" by (rule that)
  qed
  have "\<exists>st'. set_key be s st (Some name) c force = (Inr (), st')"
    if h: "initialised s st \<and> trap s st (Some name) \<and> startswith (store_dir s) ''/''
          \<and> lookup st key_path = None
          \<and> (\<forall>q b. strict_prefix q (resolve st key_path) \<longrightarrow> map_of (files st) q \<noteq> Some (File b))
          \<and> (\<forall>fs. encrypt be fs (resolve st key_path) c \<noteq> None)"
  proof (rule set_key_absent [where kp = key_path])
    show "initialised s st" "trap s st (Some name)" "startswith (store_dir s) ''/''"
      "lookup st key_path = None"
      using h by simp_all
    show "name \<noteq> []" by (rule assms(2))
    show "key_path = os_path_join (store_dir s) (normpath name @ ''.gpg'')" by (rule assms(3))
    show "\<And>q b. strict_prefix q (resolve st key_path) \<Longrightarrow> map_of (files st) q \<noteq> Some (File b)"
      using h by blast
    show "\<And>fs. encrypt be fs (resolve st key_path) c \<noteq> None"
      using h by blast
  qed
  with g show ?thesis by blast
qed

theorem set_then_get_witness:
  "set_key ex_backend ex_store ex_state (Some ''x/a'') ''hello'' False = (Inr (), ex_after_set)
   \<and> get_key ex_backend ex_store ex_after_set (Some ''x/a'') = (Inr (Some ''hello''), ex_after_set)
   \<and> lookup ex_state ''/s/x/a.gpg'' = None
   \<and> (\<exists>st'. set_key ex_backend ex_store ex_state (Some ''x/a'') ''hello'' False = (Inr (), st')
          \<and> get_key ex_backend ex_store st' (Some ''x/a'') = (Inr (Some ''hello''), st'))"
proof -
  have ne: "''x/a'' \<noteq> []" by simp
  have kp: "''/s/x/a.gpg'' = os_path_join (store_dir ex_store) (normpath ''x/a'' @ ''.gpg'')"
    by code_simp
  have c1: "\<forall>st'. set_key ex_backend ex_store ex_state (Some ''x/a'') ''hello'' False = (Inr (), st')
      \<longrightarrow> get_key ex_backend ex_store st' (Some ''x/a'') = (Inr (Some ''hello''), st')"
    by (rule set_then_get [OF _ ne kp, THEN conjunct1]) (rule ex_backend_inverse)
  have c2: "initialised ex_store ex_state \<and> trap ex_store ex_state (Some ''x/a'')
        \<and> startswith (store_dir ex_store) ''/''
        \<and> lookup ex_state ''/s/x/a.gpg'' = None
        \<and> (\<forall>q b. strict_prefix q (resolve ex_state ''/s/x/a.gpg'')
               \<longrightarrow> map_of (files ex_state) q \<noteq> Some (File b))
        \<and> (\<forall>fs. encrypt ex_backend fs (resolve ex_state ''/s/x/a.gpg'') ''hello'' \<noteq> None)
      \<longrightarrow> (\<exists>st'. set_key ex_backend ex_store ex_state (Some ''x/a'') ''hello'' False = (Inr (), st')
             \<and> get_key ex_backend ex_store st' (Some ''x/a'') = (Inr (Some ''hello''), st'))"
    by (rule set_then_get [OF _ ne kp, THEN conjunct2]) (rule ex_backend_inverse)
  have s: "set_key ex_backend ex_store ex_state (Some ''x/a'') ''hello'' False
             = (Inr (), ex_after_set)"
    by code_simp
  have r: "resolve ex_state ''/s/x/a.gpg'' = [''s'', ''x'', ''a.gpg'']" by code_simp
  have a: "\<forall>q b. strict_prefix q (resolve ex_state ''/s/x/a.gpg'')
      \<longrightarrow> map_of (files ex_state) q \<noteq> Some (File b)"
    unfolding r by (auto simp: ex_state_def strict_prefix_simps)
  have h: "initialised ex_store ex_state \<and> trap ex_store ex_state (Some ''x/a'')
      \<and> startswith (store_dir ex_store) ''/'' \<and> lookup ex_state ''/s/x/a.gpg'' = None"
    by code_simp
  have e: "\<forall>fs. encrypt ex_backend fs (resolve ex_state ''/s/x/a.gpg'') ''hello'' \<noteq> None"
    by (simp add: ex_backend_def)
  from c2 h a e have "\<exists>st'. set_key ex_backend ex_store ex_state (Some ''x/a'') ''hello'' False
        = (Inr (), st')
      \<and> get_key ex_backend ex_store st' (Some ''x/a'') = (Inr (Some ''hello''), st')"
    by blast
  with c1 s h show ?thesis by blast
qed

subsection \<open>\<^verbatim>\<open>get_key\<close>\<close>

text \<open>
  Claim C6. On an initialised store, \<^verbatim>\<open>get_key\<close> returns \<^verbatim>\<open>None\<close> without an error for the
  name \<^verbatim>\<open>None\<close> and for the empty name; for a non-empty name inside the store it
  returns the decrypted content of the key file when that file is present, and fails with
  \<open>FileNotFoundError\<close> (the spec's \<^verbatim>\<open>NotFoundError\<close>) when it is not. The state is unchanged.
\<close>

theorem get_key_cases:
  assumes "initialised s st"
  shows "get_key be s st None = (Inr None, st)
    \<and> get_key be s st (Some []) = (Inr None, st)
    \<and> (\<forall>n blob c. n \<noteq> [] \<and> trap s st (Some n)
          \<and> lookup st (os_path_join (store_dir s) (normpath n @ ''.gpg'')) = Some (File blob)
          \<and> decrypt be blob = Some c
        \<longrightarrow> get_key be s st (Some n) = (Inr (Some c), st))
    \<and> (\<forall>n. n \<noteq> [] \<and> trap s st (Some n)
          \<and> \<not> os_path_isfile st (os_path_join (store_dir s) (normpath n @ ''.gpg''))
        \<longrightarrow> get_key be s st (Some n) = (Inl FileNotFoundError, st))"
proof (intro conjI allI impI)
  show "get_key be s st None = (Inr None, st)"
    using assms by (simp add: get_key_def trap_None)
  show "get_key be s st (Some []) = (Inr None, st)"
    using assms by (simp add: get_key_def trap_empty)
next
  fix n blob c
  assume a: "n \<noteq> [] \<and> trap s st (Some n)
          \<and> lookup st (os_path_join (store_dir s) (normpath n @ ''.gpg'')) = Some (File blob)
          \<and> decrypt be blob = Some c"
  then have "os_path_isfile st (os_path_join (store_dir s) (normpath n @ ''.gpg''))"
    unfolding isfile_iff by blast
  moreover have "read_key be st (os_path_join (store_dir s) (normpath n @ ''.gpg'')) = Inr c"
    using a by (simp add: read_key_def)
  ultimately show "get_key be s st (Some n) = (Inr (Some c), st)"
    using assms a by (simp add: get_key_def Let_def)
next
  fix n
  assume "n \<noteq> [] \<and> trap s st (Some n)
          \<and> \<not> os_path_isfile st (os_path_join (store_dir s) (normpath n @ ''.gpg''))"
  then show "get_key be s st (Some n) = (Inl FileNotFoundError, st)"
    using assms by (simp add: get_key_def Let_def)
qed

theorem get_key_cases_witness:
  "initialised ex_store ex_state
   \<and> get_key ex_backend ex_store ex_state None = (Inr None, ex_state)
   \<and> get_key ex_backend ex_store ex_state (Some []) = (Inr None, ex_state)
   \<and> get_key ex_backend ex_store ex_state (Some ''b'') = (Inr (Some ''old\<newline>m1\<newline>m2''), ex_state)
   \<and> get_key ex_backend ex_store ex_state (Some ''nokey'') = (Inl FileNotFoundError, ex_state)"
proof -
  have i: "initialised ex_store ex_state" by code_simp
  note g = get_key_cases [OF i, of ex_backend]
  have p: "''b'' \<noteq> [] \<and> trap ex_store ex_state (Some ''b'')
     \<and> lookup ex_state (os_path_join (store_dir ex_store) (normpath ''b'' @ ''.gpg''))
         = Some (File ''E:old\<newline>m1\<newline>m2'')
     \<and> decrypt ex_backend ''E:old\<newline>m1\<newline>m2'' = Some ''old\<newline>m1\<newline>m2''"
    by code_simp
  have a: "''nokey'' \<noteq> [] \<and> trap ex_store ex_state (Some ''nokey'')
     \<and> \<not> os_path_isfile ex_state (os_path_join (store_dir ex_store) (normpath ''nokey'' @ ''.gpg''))"
    by code_simp
  from g p a i show ?thesis by blast
qed

subsection \<open>The empty name\<close>

text \<open>
  Claim C10. On an initialised store, \<^verbatim>\<open>set_key\<close> and \<^verbatim>\<open>gen_key\<close> called with the name
  \<^verbatim>\<open>None\<close> or the empty name return at once, \<^verbatim>\<open>set_key\<close> nothing and \<^verbatim>\<open>gen_key\<close>
  \<^verbatim>\<open>None\<close>, with no error; the state they return is the one they were given, so that no
  file is modified and no history entry recorded.
\<close>

theorem empty_name_returns:
  assumes "initialised s st" and "name = None \<or> name = Some []"
  shows "set_key be s st name key_data force = (Inr (), st)
    \<and> gen_key be s st name len symbols force inplace = (Inr None, st)"
  using assms by (auto simp: set_key_def gen_key_def trap_None trap_empty)

theorem empty_name_returns_witness:
  "initialised ex_store ex_state
   \<and> set_key ex_backend ex_store ex_state (Some []) ''data'' False = (Inr (), ex_state)
   \<and> gen_key ex_backend ex_store ex_state (Some []) 12 True False False = (Inr None, ex_state)
   \<and> set_key ex_backend ex_store ex_state None ''data'' True = (Inr (), ex_state)
   \<and> gen_key ex_backend ex_store ex_state None 12 True True True = (Inr None, ex_state)"
proof -
  have i: "initialised ex_store ex_state" by code_simp
  from empty_name_returns [OF i, of "Some []" ex_backend "''data''" False 12 True False]
    empty_name_returns [OF i, of None ex_backend "''data''" True 12 True True] i
  show ?thesis by simp
qed

subsection \<open>Writing over a key that is present\<close>

text \<open>
  Claim C5. Where a key file is present for the name, \<^verbatim>\<open>set_key\<close> without \<open>force\<close> fails
  with \<open>FileExistsError\<close> (the spec's \<^verbatim>\<open>AlreadyExistsError\<close>) and returns the state it was
  given, so the stored secret is unchanged; with \<open>force\<close> it succeeds, and a following
  \<^verbatim>\<open>get_key\<close> returns the new content. This is on an initialised store with an absolute
  root, in a well-formed file system, for a name inside the store and a backend that
  encrypts the new content and decrypts what it encrypted.
\<close>

theorem set_key_conflict:
  assumes "\<And>fs r c b. encrypt be fs r c = Some b \<Longrightarrow> decrypt be b = Some c"
    and "wf_fs (files st)" and "startswith (store_dir s) ''/''"
    and "initialised s st" and "trap s st (Some n)" and "n \<noteq> []"
    and "lookup st (os_path_join (store_dir s) (normpath n @ ''.gpg'')) = Some (File old)"
    and "encrypt be (files st)
        (resolve st (os_path_join (store_dir s) (normpath n @ ''.gpg''))) c \<noteq> None"
  shows "set_key be s st (Some n) c False = (Inl FileExistsError, st)
    \<and> (\<exists>st'. set_key be s st (Some n) c True = (Inr (), st')
          \<and> get_key be s st' (Some n) = (Inr (Some c), st'))"
proof
  show "set_key be s st (Some n) c False = (Inl FileExistsError, st)"
    using assms(4-7) by (rule set_key_present)
  from assms(8) obtain blob where
    "encrypt be (files st) (resolve st (os_path_join (store_dir s) (normpath n @ ''.gpg''))) c
       = Some blob"
    by blast
  from set_key_force [OF assms(2-7) this]
  obtain st' where s: "set_key be s st (Some n) c True = (Inr (), st')" by blast
  have "get_key be s st' (Some n) = (Inr (Some c), st')"
  proof (rule set_key_get_key)
    show "\<And>fs r c b. encrypt be fs r c = Some b \<Longrightarrow> decrypt be b = Some c"
      by (rule assms(1))
    show "n \<noteq> []" by (rule assms(6))
    show "set_key be s st (Some n) c True = (Inr (), st')" by (rule s)
  qed
  with s show "\<exists>st'. set_key be s st (Some n) c True = (Inr (), st')
          \<and> get_key be s st' (Some n) = (Inr (Some c), st')"
    by blast
qed

theorem set_key_conflict_witness:
  "set_key ex_backend ex_store ex_state (Some ''b'') ''new'' False = (Inl FileExistsError, ex_state)
   \<and> (\<exists>st'. set_key ex_backend ex_store ex_state (Some ''b'') ''new'' True = (Inr (), st')
          \<and> get_key ex_backend ex_store st' (Some ''b'') = (Inr (Some ''new''), st'))"
proof (rule set_key_conflict [where old = "''E:old\<newline>m1\<newline>m2''"])
  show "\<And>fs r c b. encrypt ex_backend fs r c = Some b \<Longrightarrow> decrypt ex_backend b = Some c"
    by (rule ex_backend_inverse)
  show "wf_fs (files ex_state)" by code_simp
  show "startswith (store_dir ex_store) ''/''" by code_simp
  show "initialised ex_store ex_state" by code_simp
  show "trap ex_store ex_state (Some ''b'')" by code_simp
  show "''b'' \<noteq> []" by simp
  show "lookup ex_state (os_path_join (store_dir ex_store) (normpath ''b'' @ ''.gpg''))
      = Some (File ''E:old\<newline>m1\<newline>m2'')"
    by code_simp
  show "encrypt ex_backend (files ex_state)
      (resolve ex_state (os_path_join (store_dir ex_store) (normpath ''b'' @ ''.gpg''))) ''new''
      \<noteq> None"
    by (simp add: ex_backend_def)
qed

subsection \<open>\<^verbatim>\<open>gen_key\<close> in place\<close>

text \<open>
  Claim C4. For a key that is present, with decrypted content \<open>key_data\<close>,
  \<^verbatim>\<open>gen_key(name, length, inplace=True)\<close> returns the password the generator gave for the
  length, and the key file then holds the encryption of that password followed by the
  lines of \<open>key_data\<close> after the first, joined by newlines as before: only line 0 is
  replaced. The value returned is the generator's, whatever decrypting the new file would
  give. This is on an initialised store with an absolute root, in a well-formed file
  system, for a name inside the store and a backend that encrypts the new content.
\<close>

theorem gen_key_inplace:
  assumes "wf_fs (files st)" and "startswith (store_dir s) ''/''"
    and "initialised s st" and "trap s st (Some n)" and "n \<noteq> []"
    and "lookup st (os_path_join (store_dir s) (normpath n @ ''.gpg'')) = Some (File blob)"
    and "decrypt be blob = Some key_data"
    and "password = gen_password be len symbols"
    and "encrypt be (files st)
           (resolve st (os_path_join (store_dir s) (normpath n @ ''.gpg'')))
           (str_join ''\<newline>'' (password # tl (str_split CHR ''\<newline>'' key_data)))
         = Some blob'"
  shows "\<exists>st'. gen_key be s st (Some n) len symbols force True = (Inr (Some password), st')
          \<and> lookup st' (os_path_join (store_dir s) (normpath n @ ''.gpg'')) = Some (File blob')
          \<and> (CHR ''\<newline>'' \<notin> set password \<longrightarrow>
               str_split CHR ''\<newline>''
                 (str_join ''\<newline>'' (password # tl (str_split CHR ''\<newline>'' key_data)))
               = password # tl (str_split CHR ''\<newline>'' key_data))"
proof -
  let ?kp = "os_path_join (store_dir s) (normpath n @ ''.gpg'')"
  let ?lines = "str_split CHR ''\<newline>'' key_data"
  have u: "?lines[0 := password] = password # tl ?lines"
    by (cases ?lines) simp_all
  have g: "gen_key be s st (Some n) len symbols force True =
     (Inr (Some password),
      git_add_path s (st\<lparr>files := AList.update (resolve st ?kp) (File blob') (files st)\<rparr>) ?kp
        (''Replace generated password for '' @ normpath n @ ''.''))"
    unfolding assms(8)
    by (rule gen_key_inplace_eq [OF assms(1-7)]) (use assms(8,9) u in simp)
  have "endswith ?kp ''.gpg''"
    by (rule endswith_join) (simp add: endswith_def suffix_def)
  then obtain t where "resolve st ?kp = resolve st (dirname ?kp) @ [t]"
    by (rule resolve_key_path)
  then have ne: "resolve st ?kp \<noteq> []" by simp
  have l: "lookup (git_add_path s (st\<lparr>files := AList.update (resolve st ?kp) (File blob') (files st)\<rparr>)
              ?kp (''Replace generated password for '' @ normpath n @ ''.'')) ?kp
           = Some (File blob')"
    using ne by (simp add: lookup_def node_at_def resolve_def update_conv')
  have "CHR ''\<newline>'' \<notin> set password \<longrightarrow>
      str_split CHR ''\<newline>'' (str_join ''\<newline>'' (password # tl ?lines)) = password # tl ?lines"
    using lines_replace_first [of password key_data] u by simp
  with g l show ?thesis by blast
qed

theorem gen_key_inplace_witness:
  "\<exists>st'. gen_key ex_backend ex_store ex_state (Some ''b'') 5 True False True
            = (Inr (Some ''ppppp''), st')
     \<and> lookup st' ''/s/b.gpg'' = Some (File ''E:ppppp\<newline>m1\<newline>m2'')
     \<and> str_split CHR ''\<newline>'' ''ppppp\<newline>m1\<newline>m2'' = [''ppppp'', ''m1'', ''m2'']"
proof -
  have "\<exists>st'. gen_key ex_backend ex_store ex_state (Some ''b'') 5 True False True
            = (Inr (Some ''ppppp''), st')
     \<and> lookup st' (os_path_join (store_dir ex_store) (normpath ''b'' @ ''.gpg''))
         = Some (File ''E:ppppp\<newline>m1\<newline>m2'')
     \<and> (CHR ''\<newline>'' \<notin> set ''ppppp'' \<longrightarrow>
           str_split CHR ''\<newline>''
             (str_join ''\<newline>'' (''ppppp'' # tl (str_split CHR ''\<newline>'' ''old\<newline>m1\<newline>m2'')))
           = ''ppppp'' # tl (str_split CHR ''\<newline>'' ''old\<newline>m1\<newline>m2''))"
  proof (rule gen_key_inplace [where blob = "''E:old\<newline>m1\<newline>m2''"])
    show "wf_fs (files ex_state)" by code_simp
    show "startswith (store_dir ex_store) ''/''" by code_simp
    show "initialised ex_store ex_state" by code_simp
    show "trap ex_store ex_state (Some ''b'')" by code_simp
    show "''b'' \<noteq> []" by simp
    show "lookup ex_state (os_path_join (store_dir ex_store) (normpath ''b'' @ ''.gpg''))
        = Some (File ''E:old\<newline>m1\<newline>m2'')"
      by code_simp
    show "decrypt ex_backend ''E:old\<newline>m1\<newline>m2'' = Some ''old\<newline>m1\<newline>m2''"
      by code_simp
    show "''ppppp'' = gen_password ex_backend 5 True" by code_simp
    show "encrypt ex_backend (files ex_state)
        (resolve ex_state (os_path_join (store_dir ex_store) (normpath ''b'' @ ''.gpg'')))
        (str_join ''\<newline>'' (''ppppp'' # tl (str_split CHR ''\<newline>'' ''old\<newline>m1\<newline>m2'')))
        = Some ''E:ppppp\<newline>m1\<newline>m2''"
      by code_simp
  qed
  moreover have "os_path_join (store_dir ex_store) (normpath ''b'' @ ''.gpg'') = ''/s/b.gpg''"
    by code_simp
  moreover have "str_join ''\<newline>'' (''ppppp'' # tl (str_split CHR ''\<newline>'' ''old\<newline>m1\<newline>m2''))
      = ''ppppp\<newline>m1\<newline>m2''"
    by code_simp
  moreover have "''ppppp'' # tl (str_split CHR ''\<newline>'' ''old\<newline>m1\<newline>m2'') = [''ppppp'', ''m1'', ''m2'']"
    by code_simp
  ultimately show ?thesis by simp
qed

subsection \<open>\<^verbatim>\<open>list_dir\<close>\<close>

text \<open>
  Claim C8. On an initialised store, for a path inside it: when the path is not a
  directory \<^verbatim>\<open>list_dir\<close> fails with \<open>FileNotFoundError\<close> (the spec's \<^verbatim>\<open>NotFoundError\<close>).
  When it is one, the two lists returned are the store names of two lists of entries of
  that directory, \<open>ds\<close> and \<open>ks\<close>, each sorted by entry name and without repetition:
  \<open>ds\<close> are the entries that are directories, \<open>ks\<close> the entries that are files and end in
  \<^verbatim>\<open>.gpg\<close>, and neither holds an entry that starts with a dot. Only the entries of the
  directory itself are listed.
\<close>

theorem list_dir_sorted:
  assumes "initialised s st" and "trap s st (Some path)"
    and "path_dir = os_path_join (store_dir s) (normpath path)"
  shows "(\<not> os_path_isdir st path_dir \<longrightarrow> list_dir s st path = (Inl FileNotFoundError, st))
    \<and> (os_path_isdir st path_dir \<longrightarrow>
         (\<exists>entries ds ks.
            os_listdir st path_dir = Inr entries
            \<and> list_dir s st path =
                (Inr (map (\<lambda>e. get_store_name s st (os_path_join path_dir e)) ds,
                      map (\<lambda>e. get_store_name s st (os_path_join path_dir e)) ks), st)
            \<and> sorted ds \<and> distinct ds
            \<and> set ds = {e \<in> set entries. \<not> startswith e ''.''
                           \<and> os_path_isdir st (os_path_join path_dir e)}
            \<and> sorted ks \<and> distinct ks
            \<and> set ks = {e \<in> set entries. \<not> startswith e ''.''
                           \<and> os_path_isfile st (os_path_join path_dir e)
                           \<and> endswith e ''.gpg''}))"
proof (intro conjI impI)
  assume "\<not> os_path_isdir st path_dir"
  then show "list_dir s st path = (Inl FileNotFoundError, st)"
    using assms by (simp add: list_dir_def Let_def)
next
  assume d: "os_path_isdir st path_dir"
  then obtain entries where e: "os_listdir st path_dir = Inr entries"
    using os_listdir_isdir by blast
  let ?ds = "filter (\<lambda>e. \<not> startswith e ''.'' \<and> os_path_isdir st (os_path_join path_dir e))
               (sort entries)"
  let ?ks = "filter (\<lambda>e. \<not> startswith e ''.'' \<and> os_path_isfile st (os_path_join path_dir e)
                           \<and> endswith e ''.gpg'') (sort entries)"
  have "list_dir s st path =
      (Inr (map (\<lambda>e. get_store_name s st (os_path_join path_dir e)) ?ds,
            map (\<lambda>e. get_store_name s st (os_path_join path_dir e)) ?ks), st)"
    using assms d e by (simp add: list_dir_def Let_def list_dir_loop_eq)
  moreover have "sorted ?ds" "sorted ?ks" by (rule sorted_filter_sort)+
  moreover have "distinct ?ds" "distinct ?ks"
    using os_listdir_distinct [OF e] by simp_all
  moreover have "set ?ds = {e \<in> set entries. \<not> startswith e ''.''
                           \<and> os_path_isdir st (os_path_join path_dir e)}"
    by auto
  moreover have "set ?ks = {e \<in> set entries. \<not> startswith e ''.''
                           \<and> os_path_isfile st (os_path_join path_dir e)
                           \<and> endswith e ''.gpg''}"
    by auto
  ultimately show "\<exists>entries ds ks.
            os_listdir st path_dir = Inr entries
            \<and> list_dir s st path =
                (Inr (map (\<lambda>e. get_store_name s st (os_path_join path_dir e)) ds,
                      map (\<lambda>e. get_store_name s st (os_path_join path_dir e)) ks), st)
            \<and> sorted ds \<and> distinct ds
            \<and> set ds = {e \<in> set entries. \<not> startswith e ''.''
                           \<and> os_path_isdir st (os_path_join path_dir e)}
            \<and> sorted ks \<and> distinct ks
            \<and> set ks = {e \<in> set entries. \<not> startswith e ''.''
                           \<and> os_path_isfile st (os_path_join path_dir e)
                           \<and> endswith e ''.gpg''}"
    using e by blast
qed

theorem list_dir_sorted_witness:
  "list_dir ex_store ex_listing [] =
     (Inr ([''d'', ''zd''], [''a-b'', ''a'', ''b'', ''c'']), ex_listing)
   \<and> (\<exists>entries ds ks.
         os_listdir ex_listing ''/s/.'' = Inr entries
         \<and> list_dir ex_store ex_listing [] =
             (Inr (map (\<lambda>e. get_store_name ex_store ex_listing (os_path_join ''/s/.'' e)) ds,
                   map (\<lambda>e. get_store_name ex_store ex_listing (os_path_join ''/s/.'' e)) ks),
              ex_listing)
         \<and> sorted ds \<and> distinct ds
         \<and> set ds = {e \<in> set entries. \<not> startswith e ''.''
                        \<and> os_path_isdir ex_listing (os_path_join ''/s/.'' e)}
         \<and> sorted ks \<and> distinct ks
         \<and> set ks = {e \<in> set entries. \<not> startswith e ''.''
                        \<and> os_path_isfile ex_listing (os_path_join ''/s/.'' e)
                        \<and> endswith e ''.gpg''})
   \<and> list_dir ex_store ex_listing ''nodir'' = (Inl FileNotFoundError, ex_listing)"
proof -
  have i: "initialised ex_store ex_listing" by code_simp
  have t1: "trap ex_store ex_listing (Some [])" by code_simp
  have t2: "trap ex_store ex_listing (Some ''nodir'')" by code_simp
  have p1: "''/s/.'' = os_path_join (store_dir ex_store) (normpath [])" by code_simp
  have p2: "''/s/nodir'' = os_path_join (store_dir ex_store) (normpath ''nodir'')" by code_simp
  have d1: "os_path_isdir ex_listing ''/s/.''" by code_simp
  have d2: "\<not> os_path_isdir ex_listing ''/s/nodir''" by code_simp
  have v: "list_dir ex_store ex_listing [] =
     (Inr ([''d'', ''zd''], [''a-b'', ''a'', ''b'', ''c'']), ex_listing)"
    by code_simp
  from list_dir_sorted [OF i t1 p1] d1 list_dir_sorted [OF i t2 p2] d2 v
  show ?thesis by blast
qed

subsection \<open>\<^verbatim>\<open>init_store\<close> with identities\<close>

text \<open>
  Claim C2 says that \<^verbatim>\<open>init_store\<close> with a non-empty list of identities succeeds whether
  or not the directory exists. The method calls \<^verbatim>\<open>os.makedirs\<close> without \<^verbatim>\<open>exist_ok\<close>, so
  on a directory that exists it fails: for every list of identities that is not empty and
  every path inside the store whose directory exists, \<^verbatim>\<open>init_store\<close> raises
  \<open>FileExistsError\<close> and leaves the state as it was.
\<close>

theorem init_store_existing_directory:
  assumes "trap s st path" and "ids \<noteq> []"
    and "os_path_isdir st (os_path_join (store_dir s)
           (case path of None \<Rightarrow> store_dir s | Some p \<Rightarrow> normpath p))"
  shows "init_store be s st (Some ids) path = (Inl FileExistsError, st)"
  using assms(1,2) isdir_exists [OF assms(3)] by (rule init_store_exists)

theorem init_store_existing_directory_witness:
  "os_path_isdir ex_state ''/s''
   \<and> init_store ex_backend ex_store ex_state (Some [''B'']) None = (Inl FileExistsError, ex_state)
   \<and> os_path_isdir ex_listing ''/s/d''
   \<and> init_store ex_backend ex_store ex_listing (Some [''B'', ''C'']) (Some ''d'')
       = (Inl FileExistsError, ex_listing)"
proof -
  have t1: "trap ex_store ex_state None" by code_simp
  have d1: "os_path_isdir ex_state (os_path_join (store_dir ex_store)
              (case None of None \<Rightarrow> store_dir ex_store | Some p \<Rightarrow> normpath p))"
    by code_simp
  have t2: "trap ex_store ex_listing (Some ''d'')" by code_simp
  have d2: "os_path_isdir ex_listing (os_path_join (store_dir ex_store)
              (case Some ''d'' of None \<Rightarrow> store_dir ex_store | Some p \<Rightarrow> normpath p))"
    by code_simp
  have e1: "os_path_isdir ex_state ''/s''" by code_simp
  have e2: "os_path_isdir ex_listing ''/s/d''" by code_simp
  have n1: "[''B''] \<noteq> []" and n2: "[''B'', ''C''] \<noteq> []" by simp_all
  from init_store_existing_directory [OF t1 n1 d1, of ex_backend]
    init_store_existing_directory [OF t2 n2 d2, of ex_backend] e1 e2
  show ?thesis by simp
qed

subsection \<open>\<^verbatim>\<open>init_store\<close> without identities\<close>

text \<open>
  Claim C3 says that \<^verbatim>\<open>init_store\<close> with an empty list removes only the \<^verbatim>\<open>.gpg-id\<close> file
  and the directories that have become empty, and keeps every secret. The method calls
  \<^verbatim>\<open>shutil.rmtree\<close> on the directory, which removes everything below it: in a well-formed
  file system, for a path that passes the checks and a directory that has a \<^verbatim>\<open>.gpg-id\<close>
  file, \<^verbatim>\<open>init_store\<close> with the empty list returns, and in the state it returns nothing
  is left below the directory. (The directory itself goes too, unless the path ends in
  \<^verbatim>\<open>.\<close>, where it stays, emptied.)
\<close>

theorem init_store_empty_removes_subtree:
  assumes "wf_fs (files st)" and "trap s st path"
    and "\<forall>p. path = Some p \<longrightarrow> os_path_isdir st (normpath p) \<or> \<not> os_path_exists st (normpath p)"
    and "gpg_id_dir = os_path_join (store_dir s)
           (case path of None \<Rightarrow> store_dir s | Some p \<Rightarrow> normpath p)"
    and "os_path_isfile st (os_path_join gpg_id_dir ''.gpg-id'')"
  shows "\<exists>st'. init_store be s st (Some []) path = (Inr (), st')
          \<and> (\<forall>q. strict_prefix (resolve st gpg_id_dir) q \<longrightarrow> map_of (files st') q = None)"
proof -
  let ?gp = "os_path_join gpg_id_dir ''.gpg-id''"
  let ?r = "resolve st gpg_id_dir"
  let ?gone = "\<lambda>q. if rmdir_refuses gpg_id_dir then strict_prefix ?r q else prefix ?r q"
  let ?fs1 = "AList.delete (resolve st ?gp) (files st)"
  define st3 where "st3 =
      (git_remove_path s (st\<lparr>files := ?fs1\<rparr>) [?gp] (''Deinitialize '' @ ?gp @ ''.'') True True)
       \<lparr>files := filter (\<lambda>(q, n). \<not> ?gone q) ?fs1\<rparr>"
  note d = init_store_delete_subtree(2) [OF assms(1,5)]
  have del: "init_store_delete s st gpg_id_dir ?gp = (Inr (), st3)"
    unfolding st3_def using assms(1,5) by (rule init_store_delete_subtree(1))
  have f3: "files st3 = filter (\<lambda>(q, n). \<not> ?gone q) ?fs1"
    by (simp add: st3_def)
  have m3: "map_of (files st3) q = (if \<not> ?gone q then map_of ?fs1 q else None)" for q
    unfolding f3 by (rule map_of_filter_key)
  have r3: "resolve st3 p = resolve st p" for p
    by (simp add: st3_def resolve_def)
  have re: "reencrypt_path be st3 gpg_id_dir = (Inr (), st3)"
  proof (rule reencrypt_path_nothing)
    fix q n b
    assume q: "(q, n) \<in> set (files st3)" "q \<noteq> []" "prefix (resolve st3 gpg_id_dir) q"
    from q(1) have "\<not> ?gone q" unfolding f3 by auto
    with q(3) have "q = ?r"
      unfolding r3 by (auto simp: strict_prefix_def split: if_splits)
    with q(2) d have "map_of ?fs1 q = Some Dir"
      by (simp add: node_at_def)
    then show "map_of (files st3) q \<noteq> Some (File b)"
      unfolding m3 by simp
  qed
  have p: "init_store_path s st path
      = Inr (case path of None \<Rightarrow> store_dir s | Some p \<Rightarrow> normpath p)"
    using assms(3) by (rule init_store_path_ok)
  have i: "init_store be s st (Some []) path =
      (Inr (), git_add_path s st3 gpg_id_dir
                 (''Reencrypt password store using new GPG id '' @ str_join '', '' [] @ ''.''))"
    using assms(2,4) p del re by (simp add: init_store_def Let_def)
  have "map_of (files st3) q = None" if "strict_prefix ?r q" for q
    using that unfolding m3 by (auto simp: strict_prefix_def)
  with i show ?thesis by simp
qed

theorem init_store_empty_removes_subtree_witness:
  "lookup ex_state ''/s/b.gpg'' = Some (File ''E:old\<newline>m1\<newline>m2'')
   \<and> init_store ex_backend ex_store ex_state (Some []) None = (Inr (), ex_after_deinit)
   \<and> lookup ex_after_deinit ''/s/b.gpg'' = None
   \<and> (\<exists>st'. init_store ex_backend ex_store ex_state (Some []) None = (Inr (), st')
          \<and> map_of (files st') (resolve ex_state ''/s/b.gpg'') = None)
   \<and> fst (init_store ex_backend ex_store ex_state (Some []) (Some ''.'')) = Inr ()
   \<and> lookup (snd (init_store ex_backend ex_store ex_state (Some []) (Some ''.''))) ''/s/b.gpg''
       = None
   \<and> lookup (snd (init_store ex_backend ex_store ex_state (Some []) (Some ''.''))) ''/s''
       = Some Dir"
proof -
  have w: "wf_fs (files ex_state)" by code_simp
  have t: "trap ex_store ex_state None" by code_simp
  have c: "\<forall>p. (None :: string option) = Some p \<longrightarrow>
      os_path_isdir ex_state (normpath p) \<or> \<not> os_path_exists ex_state (normpath p)"
    by simp
  have g: "''/s'' = os_path_join (store_dir ex_store)
      (case None of None \<Rightarrow> store_dir ex_store | Some p \<Rightarrow> normpath p)"
    by code_simp
  have f: "os_path_isfile ex_state (os_path_join ''/s'' ''.gpg-id'')" by code_simp
  have p: "strict_prefix (resolve ex_state ''/s'') (resolve ex_state ''/s/b.gpg'')" by code_simp
  have v: "lookup ex_state ''/s/b.gpg'' = Some (File ''E:old\<newline>m1\<newline>m2'')
    \<and> init_store ex_backend ex_store ex_state (Some []) None = (Inr (), ex_after_deinit)
    \<and> lookup ex_after_deinit ''/s/b.gpg'' = None"
    by code_simp
  have dot: "fst (init_store ex_backend ex_store ex_state (Some []) (Some ''.'')) = Inr ()
    \<and> lookup (snd (init_store ex_backend ex_store ex_state (Some []) (Some ''.''))) ''/s/b.gpg''
        = None
    \<and> lookup (snd (init_store ex_backend ex_store ex_state (Some []) (Some ''.''))) ''/s''
        = Some Dir"
    by code_simp
  from init_store_empty_removes_subtree [OF w t c g f, of ex_backend] p v dot
  show ?thesis by blast
qed

subsection \<open>The destination of \<^verbatim>\<open>_copy_move_path\<close>\<close>

text \<open>
  Claim C7 says that a new path ending in a separator is taken as a directory and gets no
  \<^verbatim>\<open>.gpg\<close> suffix. The method normalises the new path first, which strips the trailing
  separator, so its test for one never decides anything: whenever the old path is not a
  directory, the new full path gets the suffix \<^verbatim>\<open>.gpg\<close> unless it is an existing directory,
  whatever the new path ends in.
\<close>

theorem copy_move_gpg_suffix:
  assumes "\<not> os_path_isdir st (os_path_join (store_dir s) (normpath old_path))"
    and "new_path_full = os_path_join (store_dir s) (normpath new_path)"
  shows "copy_move_args s st old_path new_path =
     (os_path_join (store_dir s) (normpath old_path) @ ''.gpg'',
      if os_path_isdir st new_path_full then new_path_full else new_path_full @ ''.gpg'')"
  using assms new_path_full_slash [of "store_dir s" new_path st]
  by (auto simp: copy_move_args_def Let_def)

theorem copy_move_gpg_suffix_witness:
  "endswith ''newdir/'' ''/''
   \<and> \<not> os_path_isdir ex_state ''/s/b''
   \<and> \<not> os_path_isdir ex_state ''/s/newdir''
   \<and> copy_move_args ex_store ex_state ''b'' ''newdir/'' = (''/s/b.gpg'', ''/s/newdir.gpg'')"
proof -
  have a: "\<not> os_path_isdir ex_state (os_path_join (store_dir ex_store) (normpath ''b''))"
    by code_simp
  have b: "''/s/newdir'' = os_path_join (store_dir ex_store) (normpath ''newdir/'')"
    by code_simp
  have c: "os_path_join (store_dir ex_store) (normpath ''b'') = ''/s/b''" by code_simp
  have d: "\<not> os_path_isdir ex_state ''/s/newdir''" by code_simp
  have e: "endswith ''newdir/'' ''/''" by code_simp
  from copy_move_gpg_suffix [OF a b] a c d e show ?thesis by simp
qed

subsection \<open>The errors of \<^verbatim>\<open>init_store\<close>\<close>




end
